theory Spec2Isabelle
  imports Main
begin

section \<open>YASMI: the object store\<close>

text \<open>
  The Python objects of \<^verbatim>\<open>yasmi.py\<close> (states, pseudo-states, composites, the state
  machine and its events) live in one store. An object is a reference (a natural
  number handed out by the allocator \<open>next_id\<close>), and every attribute of the source is a
  field of the store that maps references to attribute values, so that two references
  to one object see each other's assignments as they do in Python.

  The client's hooks (\<^verbatim>\<open>entry_actions\<close>, \<^verbatim>\<open>do_actions\<close>, \<^verbatim>\<open>exit_actions\<close>) and the
  transition actions are opaque callables. The model records each invocation, in
  order, in the field \<open>calls\<close>, the way the repository's tests record them in a mock.

  A call that raises returns the exception alone (\<open>Inl\<close>): what it had changed in the
  store before it raised is not observed.
\<close>

type_synonym ref = nat

text \<open>The class of an object; \<open>State\<close> stands for any client subclass of a simple state.\<close>

datatype kind =
    State
  | InitialState
  | FinalState
  | HistoryState
  | ConcurrentHistoryState
  | CompositeState
  | ConcurrentCompositeState
  | StateMachine
  | Event
  | EventWithValue

text \<open>An element of \<^verbatim>\<open>ActiveStates = List[Union[State, Set[State]]]\<close>.\<close>

datatype item = Single ref | Frame "ref set"

datatype call = EntryActions ref | DoActions ref | ExitActions ref | TransitionAction nat

text \<open>
  The assertions of the source, named after their message or the condition they test;
  the other exceptions are the ones Python raises by itself.
\<close>

datatype assertion =
    StateMachineSuperStateIsNone  \<comment> \<open>\<^verbatim>\<open>state_machine\<close>: \<^verbatim>\<open>assert self._super_state is not None\<close>\<close>
  | SuperStateIsNone              \<comment> \<open>\<^verbatim>\<open>exit\<close>: "super state is None"\<close>
  | TopOfStackShouldBeASet        \<comment> \<open>"the top of the stack should be a set of concurrent states"\<close>
  | NotAtTopOfStack               \<comment> \<open>"... is not at top of stack ..."\<close>
  | HistorySuperStateIsNone       \<comment> \<open>history constructors: \<^verbatim>\<open>assert super_state is not None\<close>\<close>
  | HistoryIsNone                 \<comment> \<open>\<^verbatim>\<open>_handle_history\<close>: \<^verbatim>\<open>assert self._history is not None\<close>\<close>
  | StateToReturnToIsNone         \<comment> \<open>\<^verbatim>\<open>_handle_history\<close>: the remembered state is \<^verbatim>\<open>None\<close>\<close>
  | ValueShouldNotBeNone          \<comment> \<open>"value should not be None"\<close>
  | ValuePassedShouldNotBeNone    \<comment> \<open>"value passed should not be None"\<close>

datatype error = AssertionError assertion | IndexError | KeyError | RecursionError

record ('f, 'v) store =
  next_id :: ref
  kind_of :: "ref \<Rightarrow> kind"
  super_state :: "ref \<Rightarrow> ref option"
  initial :: "ref \<Rightarrow> ref"
  final :: "ref \<Rightarrow> ref"
  history :: "ref \<Rightarrow> ref option"
  state :: "ref \<Rightarrow> ref"
  states :: "ref \<Rightarrow> ref list"
  state_to_return_to :: "ref \<Rightarrow> ref option"
  states_to_return_to :: "ref \<Rightarrow> ref option list"
  transitions_per_state :: "ref \<Rightarrow> (ref \<rightharpoonup> 'f)"
  tick_event :: "ref \<Rightarrow> bool"
  active_states :: "ref \<Rightarrow> item list"
  event :: "ref \<Rightarrow> bool"
  event_state_machine :: "ref \<Rightarrow> ref"
  event_value :: "ref \<Rightarrow> 'v option"
  calls :: "call list"

text \<open>\<^verbatim>\<open>isinstance(s, (_InitialState, _FinalState, _BaseHistoryState))\<close>\<close>

definition is_pseudo :: "kind \<Rightarrow> bool" where
  "is_pseudo k \<longleftrightarrow>
     k = InitialState \<or> k = FinalState \<or> k = HistoryState \<or> k = ConcurrentHistoryState"

text \<open>\<^verbatim>\<open>isinstance(s, CompositeState)\<close>: the plain composite and its subclass, the machine.\<close>

definition is_composite :: "kind \<Rightarrow> bool" where
  "is_composite k \<longleftrightarrow> k = CompositeState \<or> k = StateMachine"

section \<open>State\<close>

text \<open>
  The property \<^verbatim>\<open>state_machine\<close> climbs the parent links until it meets the machine.
  Python bounds the depth of a recursion and raises \<^verbatim>\<open>RecursionError\<close> beyond it; the
  first argument of every recursive function of the model is the depth that is left.
\<close>

fun state_machine :: "nat \<Rightarrow> ('f, 'v) store \<Rightarrow> ref \<Rightarrow> error + ref" where
  "state_machine 0 h s = Inl RecursionError"
| "state_machine (Suc d) h s =
     (if kind_of h s = StateMachine then Inr s
      else (case super_state h s of
              None \<Rightarrow> Inl (AssertionError StateMachineSuperStateIsNone)
            | Some p \<Rightarrow> state_machine d h p))"

definition record_call :: "call \<Rightarrow> ('f, 'v) store \<Rightarrow> ('f, 'v) store" where
  "record_call c h = h\<lparr>calls := calls h @ [c]\<rparr>"

definition set_active_states :: "ref \<Rightarrow> item list \<Rightarrow> ('f, 'v) store \<Rightarrow> ('f, 'v) store" where
  "set_active_states sm xs h = h\<lparr>active_states := (active_states h)(sm := xs)\<rparr>"

definition activate :: "nat \<Rightarrow> ref \<Rightarrow> ('f, 'v) store \<Rightarrow> error + ('f, 'v) store" where
  "activate d s h =
     (case state_machine d h s of
        Inl e \<Rightarrow> Inl e
      | Inr sm \<Rightarrow> Inr (set_active_states sm (active_states h sm @ [Single s]) h))"

definition deactivate :: "nat \<Rightarrow> ref \<Rightarrow> ('f, 'v) store \<Rightarrow> error + ('f, 'v) store" where
  "deactivate d s h =
     (case state_machine d h s of
        Inl e \<Rightarrow> Inl e
      | Inr sm \<Rightarrow>
          (if active_states h sm = [] then Inl IndexError
           else Inr (set_active_states sm (butlast (active_states h sm)) h)))"

definition activate_concurrent_state ::
  "nat \<Rightarrow> ref \<Rightarrow> ('f, 'v) store \<Rightarrow> error + ('f, 'v) store" where
  "activate_concurrent_state d s h =
     (case state_machine d h s of
        Inl e \<Rightarrow> Inl e
      | Inr sm \<Rightarrow>
          (if active_states h sm = [] then Inl IndexError
           else (case last (active_states h sm) of
                   Single t \<Rightarrow>
                     Inr (set_active_states sm (active_states h sm @ [Frame {s}]) h)
                 | Frame S \<Rightarrow>
                     Inr (set_active_states sm
                            (butlast (active_states h sm) @ [Frame (insert s S)]) h))))"

definition deactivate_concurrent_state ::
  "nat \<Rightarrow> ref \<Rightarrow> ('f, 'v) store \<Rightarrow> error + ('f, 'v) store" where
  "deactivate_concurrent_state d s h =
     (case state_machine d h s of
        Inl e \<Rightarrow> Inl e
      | Inr sm \<Rightarrow>
          (if active_states h sm = [] then Inl IndexError
           else (case last (active_states h sm) of
                   Single t \<Rightarrow> Inl (AssertionError TopOfStackShouldBeASet)
                 | Frame S \<Rightarrow>
                     (if s \<notin> S then Inl KeyError
                      else if S - {s} = {}
                        then Inr (set_active_states sm (butlast (active_states h sm)) h)
                        else Inr (set_active_states sm
                                    (butlast (active_states h sm) @ [Frame (S - {s})]) h)))))"

text \<open>\<^verbatim>\<open>State.entry\<close> and \<^verbatim>\<open>State.do\<close>: the trace lines aside, they run the client's hook.\<close>

definition entry :: "ref \<Rightarrow> ('f, 'v) store \<Rightarrow> ('f, 'v) store" where
  "entry s h = record_call (EntryActions s) h"

definition State_do :: "ref \<Rightarrow> ('f, 'v) store \<Rightarrow> ('f, 'v) store" where
  "State_do s h = record_call (DoActions s) h"

text \<open>
  \<^verbatim>\<open>State.exit\<close>. Nothing happens for a pseudo-state. Otherwise the exit actions run
  first, and the checks on the parent and on the stack come after them.
\<close>

definition State_exit :: "nat \<Rightarrow> ref \<Rightarrow> ('f, 'v) store \<Rightarrow> error + ('f, 'v) store" where
  "State_exit d s h =
     (if is_pseudo (kind_of h s) then Inr h
      else
        (let h1 = record_call (ExitActions s) h in
         case super_state h1 s of
           None \<Rightarrow> Inl (AssertionError SuperStateIsNone)
         | Some p \<Rightarrow>
             (case state_machine d h1 s of
                Inl e \<Rightarrow> Inl e
              | Inr sm \<Rightarrow>
                  (if active_states h1 sm = [] then Inl IndexError
                   else if kind_of h1 p = ConcurrentCompositeState then
                     (case last (active_states h1 sm) of
                        Single t \<Rightarrow> Inl (AssertionError TopOfStackShouldBeASet)
                      | Frame S \<Rightarrow>
                          (if s \<notin> S then Inl (AssertionError NotAtTopOfStack)
                           else deactivate_concurrent_state d s h1))
                   else if last (active_states h1 sm) \<noteq> Single s
                     then Inl (AssertionError NotAtTopOfStack)
                   else deactivate d s h1))))"

text \<open>
  The three \<^verbatim>\<open>exit\<close> methods call each other through dynamic dispatch:
  \<open>exit\<close> is the call \<^verbatim>\<open>s.exit()\<close>, which selects the method by the class of \<open>s\<close>.
  \<open>exit_each\<close> is the loop \<^verbatim>\<open>for state in self._states: await state.exit()\<close> of the
  concurrent composite; it reads each element from the list as the store has it when
  the loop gets there.
\<close>

definition remember_state :: "ref \<Rightarrow> ('f, 'v) store \<Rightarrow> ('f, 'v) store" where
  "remember_state c h =
     (case history h c of
        Some hs \<Rightarrow>
          (if state h c \<noteq> final h c
           then h\<lparr>state_to_return_to := (state_to_return_to h)(hs := Some (state h c)),
                  state := (state h)(c := hs)\<rparr>
           else h\<lparr>state := (state h)(c := initial h c)\<rparr>)
      | None \<Rightarrow> h\<lparr>state := (state h)(c := initial h c)\<rparr>)"

definition remember_states :: "ref \<Rightarrow> ('f, 'v) store \<Rightarrow> error + ('f, 'v) store" where
  "remember_states c h =
     (case history h c of
        Some hs \<Rightarrow>
          (if \<exists>s \<in> set (states h c). s \<noteq> final h c
           then
             (if length (states_to_return_to h hs) < length (states h c) then Inl IndexError
              else Inr (h\<lparr>states_to_return_to := (states_to_return_to h)
                             (hs := map Some (states h c)
                                    @ drop (length (states h c)) (states_to_return_to h hs)),
                           states := (states h)(c := map (\<lambda>s. hs) (states h c))\<rparr>))
           else Inr (h\<lparr>states := (states h)(c := map (\<lambda>s. initial h c) (states h c))\<rparr>))
      | None \<Rightarrow> Inr (h\<lparr>states := (states h)(c := map (\<lambda>s. initial h c) (states h c))\<rparr>))"

fun exit :: "nat \<Rightarrow> ref \<Rightarrow> ('f, 'v) store \<Rightarrow> error + ('f, 'v) store"
  and CompositeState_exit :: "nat \<Rightarrow> ref \<Rightarrow> ('f, 'v) store \<Rightarrow> error + ('f, 'v) store"
  and ConcurrentCompositeState_exit ::
    "nat \<Rightarrow> ref \<Rightarrow> ('f, 'v) store \<Rightarrow> error + ('f, 'v) store"
  and exit_each :: "nat \<Rightarrow> ref \<Rightarrow> nat list \<Rightarrow> ('f, 'v) store \<Rightarrow> error + ('f, 'v) store"
where
  "exit 0 s h = Inl RecursionError"
| "exit (Suc d) s h =
     (if is_composite (kind_of h s) then CompositeState_exit d s h
      else if kind_of h s = ConcurrentCompositeState then ConcurrentCompositeState_exit d s h
      else State_exit d s h)"
| "CompositeState_exit d c h =
     (case exit d (state h c) h of
        Inl e \<Rightarrow> Inl e
      | Inr h1 \<Rightarrow> State_exit d c (remember_state c h1))"
| "ConcurrentCompositeState_exit d c h =
     (case exit_each d c [0..<length (states h c)] h of
        Inl e \<Rightarrow> Inl e
      | Inr h1 \<Rightarrow>
          (case remember_states c h1 of
             Inl e \<Rightarrow> Inl e
           | Inr h2 \<Rightarrow> State_exit d c h2))"
| "exit_each d c [] h = Inr h"
| "exit_each d c (i # is) h =
     (case exit d (states h c ! i) h of
        Inl e \<Rightarrow> Inl e
      | Inr h1 \<Rightarrow> exit_each d c is h1)"

text \<open>
  \<^verbatim>\<open>State.transition\<close>: exit the source, run the actions, enter the target unless it
  is a pseudo-state, activate the target unless it is a final state. The activation
  is the concurrent one when the parent of the \<^emph>\<open>source\<close> is a concurrent composite.
\<close>

definition run_actions :: "nat list \<Rightarrow> ('f, 'v) store \<Rightarrow> ('f, 'v) store" where
  "run_actions actions h = fold (\<lambda>a. record_call (TransitionAction a)) actions h"

definition super_state_is_concurrent :: "('f, 'v) store \<Rightarrow> ref \<Rightarrow> bool" where
  "super_state_is_concurrent h s =
     (case super_state h s of
        None \<Rightarrow> False
      | Some p \<Rightarrow> kind_of h p = ConcurrentCompositeState)"

definition transition ::
  "nat \<Rightarrow> ref \<Rightarrow> ref \<Rightarrow> nat list \<Rightarrow> ('f, 'v) store \<Rightarrow> error + (ref \<times> ('f, 'v) store)" where
  "transition d self new_state actions h =
     (case exit d self h of
        Inl e \<Rightarrow> Inl e
      | Inr h1 \<Rightarrow>
          (let h2 = run_actions actions h1;
               h3 = (if \<not> is_pseudo (kind_of h2 new_state) then entry new_state h2 else h2)
           in if kind_of h3 new_state \<noteq> FinalState then
                (case (if super_state_is_concurrent h3 self
                       then activate_concurrent_state d new_state h3
                       else activate d new_state h3) of
                   Inl e \<Rightarrow> Inl e
                 | Inr h4 \<Rightarrow> Inr (new_state, h4))
              else Inr (new_state, h3)))"

section \<open>Composite states\<close>

text \<open>\<^verbatim>\<open>StateMachine.trigger_tick\<close> sets the tick event (and yields to the event loop).\<close>

definition trigger_tick :: "ref \<Rightarrow> ('f, 'v) store \<Rightarrow> ('f, 'v) store" where
  "trigger_tick sm h = h\<lparr>tick_event := (tick_event h)(sm := True)\<rparr>"

definition CompositeState_transition_to ::
  "nat \<Rightarrow> ref \<Rightarrow> ref \<Rightarrow> nat list \<Rightarrow> ('f, 'v) store \<Rightarrow> error + ('f, 'v) store" where
  "CompositeState_transition_to d c new_state actions h =
     (case transition d (state h c) new_state actions h of
        Inl e \<Rightarrow> Inl e
      | Inr (r, h1) \<Rightarrow>
          (let h2 = h1\<lparr>state := (state h1)(c := r)\<rparr>
           in if kind_of h2 (state h2 c) = FinalState then
                (case state_machine d h2 c of
                   Inl e \<Rightarrow> Inl e
                 | Inr sm \<Rightarrow> Inr (trigger_tick sm h2))
              else Inr h2))"

text \<open>
  \<^verbatim>\<open>CompositeState._handle_history\<close>. The attribute \<^verbatim>\<open>_history\<close> is assigned by the
  constructor only, so the history node read before the transition is the one whose
  remembered state is cleared after it.
\<close>

definition CompositeState_handle_history ::
  "nat \<Rightarrow> ref \<Rightarrow> ('f, 'v) store \<Rightarrow> error + ('f, 'v) store" where
  "CompositeState_handle_history d c h =
     (case history h c of
        None \<Rightarrow> Inl (AssertionError HistoryIsNone)
      | Some hs \<Rightarrow>
          (case state_to_return_to h hs of
             None \<Rightarrow> Inl (AssertionError StateToReturnToIsNone)
           | Some target_state \<Rightarrow>
               (case CompositeState_transition_to d c target_state [] h of
                  Inl e \<Rightarrow> Inl e
                | Inr h1 \<Rightarrow>
                    Inr (h1\<lparr>state_to_return_to := (state_to_return_to h1)(hs := None)\<rparr>))))"

definition CompositeState_is_at_final_state :: "('f, 'v) store \<Rightarrow> ref \<Rightarrow> bool" where
  "CompositeState_is_at_final_state h c \<longleftrightarrow> state h c = final h c"

text \<open>
  \<^verbatim>\<open>CompositeState._transitions\<close> and \<^verbatim>\<open>CompositeState.do\<close>. A transition function is a
  callable of the client; \<open>call\<close> is what awaiting it does to the store.
\<close>

definition CompositeState_transitions ::
  "('f \<Rightarrow> ('f, 'v) store \<Rightarrow> error + ('f, 'v) store) \<Rightarrow> ref \<Rightarrow> ('f, 'v) store
     \<Rightarrow> error + ('f, 'v) store" where
  "CompositeState_transitions call c h =
     (case transitions_per_state h c (state h c) of
        None \<Rightarrow> Inr h
      | Some transition_function \<Rightarrow> call transition_function h)"

definition CompositeState_do ::
  "('f \<Rightarrow> ('f, 'v) store \<Rightarrow> error + ('f, 'v) store) \<Rightarrow> ref \<Rightarrow> ('f, 'v) store
     \<Rightarrow> error + ('f, 'v) store" where
  "CompositeState_do call c h = CompositeState_transitions call c (record_call (DoActions c) h)"

text \<open>
  \<^verbatim>\<open>ConcurrentCompositeState._transition_to\<close>: the same call of \<^verbatim>\<open>transition\<close>, on the
  current child of one region. The index is a Python list index: a negative one counts
  from the end, and one outside the list raises \<^verbatim>\<open>IndexError\<close>.
\<close>

definition ConcurrentCompositeState_transition_to ::
  "nat \<Rightarrow> ref \<Rightarrow> ref \<Rightarrow> int \<Rightarrow> nat list \<Rightarrow> ('f, 'v) store \<Rightarrow> error + ('f, 'v) store" where
  "ConcurrentCompositeState_transition_to d c new_state state_index actions h =
     (let n = int (length (states h c));
          j = (if state_index < 0 then n + state_index else state_index)
      in if 0 \<le> j \<and> j < n then
           (case transition d (states h c ! nat j) new_state actions h of
              Inl e \<Rightarrow> Inl e
            | Inr (r, h1) \<Rightarrow>
                (if nat j < length (states h1 c)
                 then Inr (h1\<lparr>states := (states h1)(c := (states h1 c)[nat j := r])\<rparr>)
                 else Inl IndexError))
         else Inl IndexError)"

definition ConcurrentCompositeState_is_at_final_state :: "('f, 'v) store \<Rightarrow> ref \<Rightarrow> bool" where
  "ConcurrentCompositeState_is_at_final_state h c \<longleftrightarrow>
     list_all (\<lambda>s. s = final h c) (states h c)"

section \<open>Construction\<close>

text \<open>
  Python allocates the object, then runs the \<^verbatim>\<open>__init__\<close> methods of its class and
  of the base classes on it. \<open>new_object\<close> is the allocation; each \<open>_init\<close> function
  is one \<^verbatim>\<open>__init__\<close> and takes the object as \<open>self\<close>.
\<close>

definition new_object :: "kind \<Rightarrow> ('f, 'v) store \<Rightarrow> ref \<times> ('f, 'v) store" where
  "new_object k h =
     (next_id h, h\<lparr>next_id := Suc (next_id h), kind_of := (kind_of h)(next_id h := k)\<rparr>)"

definition State_init :: "ref \<Rightarrow> ref option \<Rightarrow> ('f, 'v) store \<Rightarrow> ('f, 'v) store" where
  "State_init self parent h = h\<lparr>super_state := (super_state h)(self := parent)\<rparr>"

definition HistoryState_init ::
  "ref \<Rightarrow> ref option \<Rightarrow> ('f, 'v) store \<Rightarrow> error + ('f, 'v) store" where
  "HistoryState_init self parent h =
     (case parent of
        None \<Rightarrow> Inl (AssertionError HistorySuperStateIsNone)
      | Some p \<Rightarrow>
          (let h1 = State_init self (Some p) h
           in Inr (h1\<lparr>state_to_return_to := (state_to_return_to h1)(self := None)\<rparr>)))"

definition ConcurrentHistoryState_init ::
  "ref \<Rightarrow> ref option \<Rightarrow> int \<Rightarrow> ('f, 'v) store \<Rightarrow> error + ('f, 'v) store" where
  "ConcurrentHistoryState_init self parent concurrent_state_count h =
     (case parent of
        None \<Rightarrow> Inl (AssertionError HistorySuperStateIsNone)
      | Some p \<Rightarrow>
          (let h1 = State_init self (Some p) h
           in Inr (h1\<lparr>states_to_return_to := (states_to_return_to h1)
                         (self := replicate (nat concurrent_state_count) None)\<rparr>)))"

definition BaseCompositeState_init ::
  "ref \<Rightarrow> ref option \<Rightarrow> ('f, 'v) store \<Rightarrow> ('f, 'v) store" where
  "BaseCompositeState_init self parent h =
     (let h1 = State_init self parent h;
          (i, h2) = new_object InitialState h1;
          h3 = State_init i (Some self) h2;
          h4 = h3\<lparr>initial := (initial h3)(self := i)\<rparr>;
          (f, h5) = new_object FinalState h4;
          h6 = State_init f (Some self) h5;
          h7 = h6\<lparr>final := (final h6)(self := f)\<rparr>
      in h7\<lparr>transitions_per_state := (transitions_per_state h7)(self := Map.empty)\<rparr>)"

definition set_transitions_per_state ::
  "ref \<Rightarrow> (ref \<rightharpoonup> 'f) \<Rightarrow> ('f, 'v) store \<Rightarrow> ('f, 'v) store" where
  "set_transitions_per_state self tps h =
     h\<lparr>transitions_per_state :=
         (transitions_per_state h)(self := transitions_per_state h self ++ tps)\<rparr>"

definition CompositeState_init ::
  "ref \<Rightarrow> ref option \<Rightarrow> bool \<Rightarrow> ('f, 'v) store \<Rightarrow> error + ('f, 'v) store" where
  "CompositeState_init self parent has_history h =
     (let h1 = BaseCompositeState_init self parent h
      in case (if has_history
               then (let (hs, h2) = new_object HistoryState h1
                     in case HistoryState_init hs (Some self) h2 of
                          Inl e \<Rightarrow> Inl e
                        | Inr h3 \<Rightarrow> Inr (h3\<lparr>history := (history h3)(self := Some hs)\<rparr>))
               else Inr (h1\<lparr>history := (history h1)(self := None)\<rparr>)) of
           Inl e \<Rightarrow> Inl e
         | Inr h4 \<Rightarrow> Inr (h4\<lparr>state := (state h4)(self := initial h4 self)\<rparr>))"

definition ConcurrentCompositeState_init ::
  "ref \<Rightarrow> int \<Rightarrow> ref option \<Rightarrow> bool \<Rightarrow> ('f, 'v) store \<Rightarrow> error + ('f, 'v) store" where
  "ConcurrentCompositeState_init self concurrent_state_count parent has_history h =
     (let h1 = BaseCompositeState_init self parent h
      in case (if has_history
               then (let (hs, h2) = new_object ConcurrentHistoryState h1
                     in case ConcurrentHistoryState_init hs (Some self)
                               concurrent_state_count h2 of
                          Inl e \<Rightarrow> Inl e
                        | Inr h3 \<Rightarrow> Inr (h3\<lparr>history := (history h3)(self := Some hs)\<rparr>))
               else Inr (h1\<lparr>history := (history h1)(self := None)\<rparr>)) of
           Inl e \<Rightarrow> Inl e
         | Inr h4 \<Rightarrow>
             Inr (h4\<lparr>states := (states h4)
                        (self := replicate (nat concurrent_state_count) (initial h4 self))\<rparr>))"

definition StateMachine_init :: "ref \<Rightarrow> ('f, 'v) store \<Rightarrow> error + ('f, 'v) store" where
  "StateMachine_init self h =
     (case CompositeState_init self None False h of
        Inl e \<Rightarrow> Inl e
      | Inr h1 \<Rightarrow>
          Inr (h1\<lparr>tick_event := (tick_event h1)(self := False),
                  active_states := (active_states h1)(self := [])\<rparr>))"

section \<open>Events\<close>

definition Event_init :: "ref \<Rightarrow> ref \<Rightarrow> ('f, 'v) store \<Rightarrow> ('f, 'v) store" where
  "Event_init self sm h =
     h\<lparr>event_state_machine := (event_state_machine h)(self := sm),
       event := (event h)(self := False)\<rparr>"

definition Event_clear :: "ref \<Rightarrow> ('f, 'v) store \<Rightarrow> ('f, 'v) store" where
  "Event_clear self h = h\<lparr>event := (event h)(self := False)\<rparr>"

text \<open>\<^verbatim>\<open>Event.__call__\<close>: the poll.\<close>

definition Event_call :: "ref \<Rightarrow> ('f, 'v) store \<Rightarrow> bool \<times> ('f, 'v) store" where
  "Event_call self h = (if event h self then (True, Event_clear self h) else (False, h))"

definition Event_set :: "ref \<Rightarrow> ('f, 'v) store \<Rightarrow> ('f, 'v) store" where
  "Event_set self h =
     trigger_tick (event_state_machine h self) (h\<lparr>event := (event h)(self := True)\<rparr>)"

definition EventWithValue_init :: "ref \<Rightarrow> ref \<Rightarrow> ('f, 'v) store \<Rightarrow> ('f, 'v) store" where
  "EventWithValue_init self sm h =
     (let h1 = Event_init self sm h in h1\<lparr>event_value := (event_value h1)(self := None)\<rparr>)"

text \<open>The property \<^verbatim>\<open>EventWithValue.value\<close>; Python's \<^verbatim>\<open>None\<close> is \<open>None\<close>.\<close>

definition EventWithValue_value :: "('f, 'v) store \<Rightarrow> ref \<Rightarrow> error + 'v" where
  "EventWithValue_value h self =
     (case event_value h self of
        None \<Rightarrow> Inl (AssertionError ValueShouldNotBeNone)
      | Some v \<Rightarrow> Inr v)"

definition EventWithValue_set_value ::
  "ref \<Rightarrow> 'v option \<Rightarrow> ('f, 'v) store \<Rightarrow> error + ('f, 'v) store" where
  "EventWithValue_set_value self v h =
     (case v of
        None \<Rightarrow> Inl (AssertionError ValuePassedShouldNotBeNone)
      | Some x \<Rightarrow> Inr (Event_set self (h\<lparr>event_value := (event_value h)(self := Some x)\<rparr>)))"

section \<open>Notions for stating the properties\<close>

text \<open>
  A state is active when the stack of its machine holds it, as an element of its own
  or as a member of a set of concurrent states (this is what the property
  \<^verbatim>\<open>active_state_types\<close> of the source lists).
\<close>

fun holds :: "item \<Rightarrow> ref \<Rightarrow> bool" where
  "holds (Single t) p \<longleftrightarrow> t = p"
| "holds (Frame S) p \<longleftrightarrow> p \<in> S"

definition on_stack :: "('f, 'v) store \<Rightarrow> ref \<Rightarrow> ref \<Rightarrow> bool" where
  "on_stack h sm p \<longleftrightarrow> list_ex (\<lambda>x. holds x p) (active_states h sm)"

text \<open>
  \<open>acted\<close> is the store after the two middle steps of \<^verbatim>\<open>State.transition\<close>: the
  transition actions have run, and then the entry actions of the target unless it is
  a pseudo-state.
\<close>

definition acted :: "nat list \<Rightarrow> ref \<Rightarrow> ('f, 'v) store \<Rightarrow> ('f, 'v) store" where
  "acted actions new_state h =
     h\<lparr>calls := calls h @ map TransitionAction actions
          @ (if is_pseudo (kind_of h new_state) then [] else [EntryActions new_state])\<rparr>"

text \<open>
  \<open>exited h h'\<close> says what any number of \<^verbatim>\<open>exit\<close> calls can have done between the
  stores \<open>h\<close> and \<open>h'\<close>: the tree and the tick events are as they were, the only calls
  recorded are exit actions of states that are not pseudo-states, and nothing has
  become active.
\<close>

definition exited :: "('f, 'v) store \<Rightarrow> ('f, 'v) store \<Rightarrow> bool" where
  "exited h h' \<longleftrightarrow>
     kind_of h' = kind_of h \<and> super_state h' = super_state h \<and> initial h' = initial h
     \<and> final h' = final h \<and> history h' = history h \<and> tick_event h' = tick_event h
     \<and> (\<exists>cs. calls h' = calls h @ cs
           \<and> (\<forall>c \<in> set cs. \<exists>q. c = ExitActions q \<and> \<not> is_pseudo (kind_of h q)))
     \<and> (\<forall>sm p. on_stack h' sm p \<longrightarrow> on_stack h sm p)"

text \<open>
  The current children of a composite, and the sets of composites whose \<^verbatim>\<open>exit\<close> is
  under way: \<open>in_progress h Q s\<close> says that each member of \<open>Q\<close> has a current child
  that is in \<open>Q\<close> or is \<open>s\<close>, the state whose \<^verbatim>\<open>exit\<close> is about to run; \<open>kept Q h h'\<close>
  says that the current children of the members of \<open>Q\<close> are the same in both stores.
\<close>

definition current_child :: "('f, 'v) store \<Rightarrow> ref \<Rightarrow> ref \<Rightarrow> bool" where
  "current_child h q b \<longleftrightarrow>
     (is_composite (kind_of h q) \<and> state h q = b)
     \<or> (kind_of h q = ConcurrentCompositeState \<and> b \<in> set (states h q))"

definition in_progress :: "('f, 'v) store \<Rightarrow> ref set \<Rightarrow> ref \<Rightarrow> bool" where
  "in_progress h Q s \<longleftrightarrow> (\<forall>q \<in> Q. \<exists>b \<in> insert s Q. current_child h q b)"

definition kept :: "ref set \<Rightarrow> ('f, 'v) store \<Rightarrow> ('f, 'v) store \<Rightarrow> bool" where
  "kept Q h h' \<longleftrightarrow> (\<forall>q \<in> Q. state h' q = state h q \<and> states h' q = states h q)"

section \<open>Clients\<close>

text \<open>
  What a client of an event does with it: \<open>poll_times n\<close> polls it \<open>n\<close> times in a row
  and collects the answers; \<open>apply_op\<close> is one call on an \<^verbatim>\<open>EventWithValue\<close>, where a
  \<^verbatim>\<open>set_value\<close> that fails its assertion has changed nothing. \<open>stored_values\<close> lists
  the values that the successful \<^verbatim>\<open>set_value\<close> calls of a history have stored.
\<close>

fun poll_times :: "nat \<Rightarrow> ref \<Rightarrow> ('f, 'v) store \<Rightarrow> bool list \<times> ('f, 'v) store" where
  "poll_times 0 e h = ([], h)"
| "poll_times (Suc n) e h =
     (let (b, h1) = Event_call e h; (bs, h2) = poll_times n e h1 in (b # bs, h2))"

datatype 'v event_op = SetValue "'v option" | Set | Poll | Clear

fun apply_op :: "ref \<Rightarrow> 'v event_op \<Rightarrow> ('f, 'v) store \<Rightarrow> ('f, 'v) store" where
  "apply_op e (SetValue v) h =
     (case EventWithValue_set_value e v h of Inl err \<Rightarrow> h | Inr h1 \<Rightarrow> h1)"
| "apply_op e Set h = Event_set e h"
| "apply_op e Poll h = snd (Event_call e h)"
| "apply_op e Clear h = Event_clear e h"

fun stored_values :: "'v event_op list \<Rightarrow> 'v list" where
  "stored_values [] = []"
| "stored_values (SetValue (Some x) # ops) = x # stored_values ops"
| "stored_values (_ # ops) = stored_values ops"

section \<open>Example machines\<close>

text \<open>The store before anything is constructed.\<close>

definition empty_store :: "('f, 'v) store" where
  "empty_store =
     \<lparr>next_id = 0, kind_of = (\<lambda>_. State), super_state = (\<lambda>_. None),
      initial = (\<lambda>_. 0), final = (\<lambda>_. 0), history = (\<lambda>_. None), state = (\<lambda>_. 0),
      states = (\<lambda>_. []), state_to_return_to = (\<lambda>_. None),
      states_to_return_to = (\<lambda>_. []), transitions_per_state = (\<lambda>_. Map.empty),
      tick_event = (\<lambda>_. False), active_states = (\<lambda>_. []), event = (\<lambda>_. False),
      event_state_machine = (\<lambda>_. 0), event_value = (\<lambda>_. None), calls = []\<rparr>"

text \<open>
  A machine (object 0, with its initial 1 and final 2) that holds a concurrent
  composite with two regions and a history (object 3, with its initial 4, final 5 and
  history 6).
\<close>

definition concurrent_machine :: "(unit, unit) store" where
  "concurrent_machine =
     (let (m, h0) = new_object StateMachine empty_store;
          h1 = projr (StateMachine_init m h0);
          (c, h2) = new_object ConcurrentCompositeState h1
      in projr (ConcurrentCompositeState_init c 2 (Some m) True h2))"

text \<open>
  A machine (object 0, with its initial 1 and final 2) with two simple states (objects
  3 and 4), started and taken to the first of them: the stack holds the machine and
  state 3.
\<close>

definition simple_machine :: "(unit, unit) store" where
  "simple_machine =
     (let (m, h0) = new_object StateMachine empty_store;
          h1 = projr (StateMachine_init m h0);
          (a, h2) = new_object State h1;
          h3 = State_init a (Some m) h2;
          (b, h4) = new_object State h3;
          h5 = State_init b (Some m) h4;
          h6 = projr (activate 2 m h5)
      in projr (CompositeState_transition_to 2 m a [] h6))"

text \<open>A concurrent composite constructed with one region and a history.\<close>

definition one_region_composite :: "error + (unit, unit) store" where
  "one_region_composite =
     (let (c, h0) = new_object ConcurrentCompositeState empty_store
      in ConcurrentCompositeState_init c 1 None True h0)"

text \<open>
  A machine (object 0) whose table has the entry for its initial pseudo-state, and
  in it a composite (object 3, with its initial 4 and final 5) whose table is empty.
\<close>

definition untabled_machine :: "error + (nat, unit) store" where
  "untabled_machine =
     (let (m, h0) = new_object StateMachine empty_store
      in case StateMachine_init m h0 of
           Inl e \<Rightarrow> Inl e
         | Inr h1 \<Rightarrow>
             (let h2 = set_transitions_per_state m [initial h1 m \<mapsto> 0] h1;
                  (c, h3) = new_object CompositeState h2
              in case CompositeState_init c (Some m) False h3 of
                   Inl e \<Rightarrow> Inl e
                 | Inr h4 \<Rightarrow> Inr (set_transitions_per_state c Map.empty h4)))"

text \<open>
  A machine (object 0) with a composite that has a history (object 3, with its
  initial 4, final 5 and history 6) and two simple states in it (objects 7 and 8).
  The machine is in the composite and the composite in state 8, after having been in
  state 7.
\<close>

definition history_machine :: "(unit, unit) store" where
  "history_machine =
     (let (m, h0) = new_object StateMachine empty_store;
          h1 = projr (StateMachine_init m h0);
          (c, h2) = new_object CompositeState h1;
          h3 = projr (CompositeState_init c (Some m) True h2);
          (x, h4) = new_object State h3;
          h5 = State_init x (Some c) h4;
          (y, h6) = new_object State h5;
          h7 = State_init y (Some c) h6
      in h7\<lparr>state := (state h7)(m := c, c := y),
             active_states := (active_states h7)(m := [Single m, Single c, Single y]),
             calls := [EntryActions c, EntryActions x, ExitActions x, EntryActions y]\<rparr>)"

text \<open>
  The same machine after it has left the composite and come back to it: the history
  pseudo-state is the current child of the composite and remembers state 8.
\<close>

definition history_machine_reentered :: "(unit, unit) store" where
  "history_machine_reentered =
     history_machine
       \<lparr>state := (state history_machine)(3 := 6),
        state_to_return_to := (state_to_return_to history_machine)(6 := Some 8),
        active_states := (active_states history_machine)(0 := [Single 0, Single 3]),
        calls := []\<rparr>"

text \<open>
  A machine (object 0, with its initial 1 and final 2) that holds a concurrent
  composite with two regions and no history (object 3, with its initial 4 and final
  5) and three simple states in it (objects 6, 7 and 8). The machine is in the
  composite, whose first region is in state 6 and whose second region is in state 8:
  the stack holds the machine, the composite and the set of the two region states.
\<close>

definition region_machine :: "(unit, unit) store" where
  "region_machine =
     (let (m, h0) = new_object StateMachine empty_store;
          h1 = projr (StateMachine_init m h0);
          (c, h2) = new_object ConcurrentCompositeState h1;
          h3 = projr (ConcurrentCompositeState_init c 2 (Some m) False h2);
          (x, h4) = new_object State h3;
          h5 = State_init x (Some c) h4;
          (y, h6) = new_object State h5;
          h7 = State_init y (Some c) h6;
          (z, h8) = new_object State h7;
          h9 = State_init z (Some c) h8
      in h9\<lparr>state := (state h9)(m := c),
             states := (states h9)(c := [x, z]),
             active_states := (active_states h9)(m := [Single m, Single c, Frame {x, z}]),
             calls := [EntryActions c, EntryActions x, EntryActions z]\<rparr>)"

text \<open>
  The same machine when the composite has just been entered: both regions are at
  the initial pseudo-state, and the stack holds the machine and the composite.
\<close>

definition region_machine_entered :: "(unit, unit) store" where
  "region_machine_entered =
     region_machine
       \<lparr>states := (states region_machine)(3 := [4, 4]),
        active_states := (active_states region_machine)(0 := [Single 0, Single 3]),
        calls := [EntryActions 3]\<rparr>"

section \<open>Properties of events\<close>

lemma poll_times_cleared: "\<not> event h e \<Longrightarrow> poll_times n e h = (replicate n False, h)"
  by (induction n) (simp_all add: Event_call_def)

lemma Event_set_Event_set: "Event_set e (Event_set e h) = Event_set e h"
  by (simp add: Event_set_def trigger_tick_def)

lemma Event_set_funpow: "(Event_set e ^^ Suc k) h = Event_set e h"
  by (induction k) (simp_all add: Event_set_Event_set)

text \<open>
  C5. However many times an event is set in a row (\<open>Suc k\<close> times, one at least), the
  polls that follow answer true once and false ever after: of \<open>Suc n\<close> polls the first
  is true and the other \<open>n\<close> are false.
\<close>

theorem Event_poll_true_once:
  "fst (poll_times (Suc n) e ((Event_set e ^^ Suc k) h)) = True # replicate n False"
proof -
  let ?h = "Event_set e h"
  have set: "event ?h e"
    by (simp add: Event_set_def trigger_tick_def)
  have clr: "\<not> event (Event_clear e ?h) e"
    by (simp add: Event_clear_def)
  have "poll_times (Suc n) e ?h = (True # replicate n False, Event_clear e ?h)"
    using set poll_times_cleared [OF clr, of n] by (simp add: Event_call_def)
  then show ?thesis
    by (simp only: Event_set_funpow fst_conv)
qed

lemma apply_op_event_value:
  "event_value (apply_op e op h) e =
     (case op of SetValue (Some x) \<Rightarrow> Some x | _ \<Rightarrow> event_value h e)"
  by (cases op)
     (auto simp: EventWithValue_set_value_def Event_set_def trigger_tick_def Event_call_def
        Event_clear_def split: option.splits)

lemma fold_apply_op_event_value:
  "event_value (fold (apply_op e) ops h) e =
     (if stored_values ops = [] then event_value h e else Some (last (stored_values ops)))"
  by (induction ops arbitrary: h rule: stored_values.induct)
     (simp_all add: apply_op_event_value del: apply_op.simps)

text \<open>
  C10. \<^verbatim>\<open>set_value\<close> with a value other than \<^verbatim>\<open>None\<close> succeeds, sets the flag and
  stores the value. After the constructor and any history of \<^verbatim>\<open>set_value\<close>, \<^verbatim>\<open>set\<close>,
  poll and \<^verbatim>\<open>clear\<close> calls, the getter fails its assertion exactly when no value has
  been stored, and otherwise returns the value stored last: polls and clears in
  between do not take it away.
\<close>

theorem EventWithValue_value_persists:
  "(\<exists>h1. EventWithValue_set_value e (Some v) h = Inr h1 \<and> event h1 e
          \<and> EventWithValue_value h1 e = Inr v)
   \<and> EventWithValue_value (fold (apply_op e) ops (EventWithValue_init e sm h)) e =
       (if stored_values ops = [] then Inl (AssertionError ValueShouldNotBeNone)
        else Inr (last (stored_values ops)))"
  by (simp add: EventWithValue_value_def fold_apply_op_event_value EventWithValue_init_def
      Event_init_def EventWithValue_set_value_def Event_set_def trigger_tick_def)

section \<open>Evaluating the examples\<close>

lemmas construction_defs =
  empty_store_def new_object_def State_init_def HistoryState_init_def
  ConcurrentHistoryState_init_def BaseCompositeState_init_def CompositeState_init_def
  ConcurrentCompositeState_init_def StateMachine_init_def set_transitions_per_state_def

lemmas transition_defs =
  record_call_def set_active_states_def activate_def deactivate_def
  activate_concurrent_state_def deactivate_concurrent_state_def entry_def State_exit_def
  remember_state_def remember_states_def run_actions_def super_state_is_concurrent_def
  transition_def trigger_tick_def CompositeState_transition_to_def
  CompositeState_handle_history_def is_pseudo_def is_composite_def

lemma state_machine_numeral [simp]:
  "state_machine (numeral k) h s =
     (if kind_of h s = StateMachine then Inr s
      else (case super_state h s of
              None \<Rightarrow> Inl (AssertionError StateMachineSuperStateIsNone)
            | Some p \<Rightarrow> state_machine (pred_numeral k) h p))"
  by (simp add: numeral_eq_Suc)

lemma simple_machine_eval:
  "kind_of simple_machine 3 = State" "super_state simple_machine 3 = Some 0"
  "kind_of simple_machine 0 = StateMachine"
  "active_states simple_machine 0 = [Single 0, Single 3]"
  "calls simple_machine = [EntryActions 3]"
  by (simp_all add: simple_machine_def construction_defs transition_defs eval_nat_numeral)

lemma concurrent_machine_states:
  "states concurrent_machine 3 = [4, 4]" "final concurrent_machine 3 = 5"
  by (simp_all add: concurrent_machine_def construction_defs eval_nat_numeral)

section \<open>The concurrent composite\<close>

text \<open>
  C4. A concurrent composite with \<open>N\<close> regions is at its final state exactly when the
  current child of each of the \<open>N\<close> regions is the composite's final pseudo-state.
\<close>

theorem is_at_final_state_all_regions:
  "length (states h c) = N \<Longrightarrow>
   ConcurrentCompositeState_is_at_final_state h c \<longleftrightarrow> (\<forall>i<N. states h c ! i = final h c)"
  by (auto simp: ConcurrentCompositeState_is_at_final_state_def list_all_length)

theorem is_at_final_state_all_regions_witness:
  "length (states concurrent_machine 3) = 2
   \<and> (ConcurrentCompositeState_is_at_final_state concurrent_machine 3
        \<longleftrightarrow> (\<forall>i<2. states concurrent_machine 3 ! i = final concurrent_machine 3))
   \<and> \<not> ConcurrentCompositeState_is_at_final_state concurrent_machine 3"
proof -
  have len: "length (states concurrent_machine 3) = 2"
    by (simp add: concurrent_machine_states)
  have "states concurrent_machine 3 ! 0 \<noteq> final concurrent_machine 3"
    by (simp add: concurrent_machine_states)
  then have "\<not> (\<forall>i<2. states concurrent_machine 3 ! i = final concurrent_machine 3)"
    using zero_less_numeral by blast
  then show ?thesis
    using len is_at_final_state_all_regions [OF len] by simp
qed

text \<open>
  C9 (as the code has it). The constructor checks nothing about the region count. For
  every integer \<open>N\<close> it succeeds, and the composite has \<open>max N 0\<close> current children,
  each of them its initial pseudo-state; with a history, the history node holds as
  many return states, none of them set.
\<close>

theorem ConcurrentCompositeState_init_any_count:
  "\<exists>h'. ConcurrentCompositeState_init self N parent has_history h = Inr h'
     \<and> states h' self = replicate (nat N) (initial h' self)
     \<and> kind_of h' (initial h' self) = InitialState
     \<and> (has_history \<longrightarrow>
          (\<exists>hs. history h' self = Some hs \<and> kind_of h' hs = ConcurrentHistoryState
             \<and> states_to_return_to h' hs = replicate (nat N) None))"
  by (simp add: ConcurrentCompositeState_init_def BaseCompositeState_init_def new_object_def
      State_init_def ConcurrentHistoryState_init_def Let_def)

theorem ConcurrentCompositeState_init_any_count_witness:
  "\<exists>h'. one_region_composite = Inr h' \<and> states h' 0 = replicate (nat 1) (initial h' 0)
     \<and> kind_of h' (initial h' 0) = InitialState
     \<and> (True \<longrightarrow> (\<exists>hs. history h' 0 = Some hs \<and> kind_of h' hs = ConcurrentHistoryState
             \<and> states_to_return_to h' hs = replicate (nat 1) None))"
  using ConcurrentCompositeState_init_any_count
    [of 0 1 None True "snd (new_object ConcurrentCompositeState empty_store)"]
  by (simp add: one_region_composite_def new_object_def empty_store_def)

text \<open>
  The claim C9 as the specification words it fails: a concurrent composite with one
  region is constructed without any error.
\<close>

theorem ConcurrentCompositeState_init_one_region_counterexample:
  "\<not> isl one_region_composite \<and> states (projr one_region_composite) 0 = [1]
   \<and> kind_of (projr one_region_composite) 0 = ConcurrentCompositeState"
  by (simp add: one_region_composite_def construction_defs)

section \<open>Properties of the plain composite\<close>

text \<open>
  C8 (as the code has it). Neither the constructor nor the registration of the table
  looks for an entry for the initial pseudo-state: a composite leaves its constructor
  with an empty table and its initial pseudo-state current. In \<^verbatim>\<open>do\<close>, a current
  child without an entry, the initial pseudo-state included, means that the do
  actions run and nothing else happens: no error and no transition.
\<close>

theorem CompositeState_do_missing_entry:
  "(\<exists>h'. CompositeState_init self parent has_history h = Inr h'
          \<and> transitions_per_state h' self (initial h' self) = None
          \<and> state h' self = initial h' self)
   \<and> (transitions_per_state g c (state g c) = None \<longrightarrow>
        CompositeState_do call c g = Inr (record_call (DoActions c) g))"
  by (simp add: CompositeState_init_def BaseCompositeState_init_def new_object_def
      State_init_def HistoryState_init_def Let_def CompositeState_do_def
      CompositeState_transitions_def record_call_def)

theorem CompositeState_do_missing_entry_witness:
  "transitions_per_state (projr untabled_machine) 3 (state (projr untabled_machine) 3) = None
   \<and> CompositeState_do (\<lambda>f h. Inr h) 3 (projr untabled_machine)
       = Inr (record_call (DoActions 3) (projr untabled_machine))"
proof -
  have none: "transitions_per_state (projr untabled_machine) 3
                (state (projr untabled_machine) 3) = None"
    by (simp add: untabled_machine_def construction_defs)
  show ?thesis
    using none CompositeState_do_missing_entry
      [of 0 None False empty_store "projr untabled_machine" 3 "\<lambda>f h. Inr h"]
    by blast
qed

text \<open>
  The claim C8 as the specification words it fails: this machine is constructed
  without any error, although the table of its composite has no entry for the
  composite's initial pseudo-state, which is its current child.
\<close>

theorem CompositeState_missing_initial_entry_counterexample:
  "\<not> isl untabled_machine
   \<and> kind_of (projr untabled_machine) 3 = CompositeState
   \<and> super_state (projr untabled_machine) 3 = Some 0
   \<and> kind_of (projr untabled_machine) 0 = StateMachine
   \<and> state (projr untabled_machine) 3 = initial (projr untabled_machine) 3
   \<and> transitions_per_state (projr untabled_machine) 3
        (initial (projr untabled_machine) 3) = None"
  by (simp add: untabled_machine_def construction_defs)

section \<open>Properties of \<^verbatim>\<open>State.exit\<close>\<close>

lemma state_machine_cong:
  "kind_of h' = kind_of h \<Longrightarrow> super_state h' = super_state h \<Longrightarrow>
   state_machine d h' s = state_machine d h s"
  by (induction d arbitrary: s) (simp_all split: option.splits)

lemma state_machine_record_call [simp]:
  "state_machine d (record_call c h) s = state_machine d h s"
  by (rule state_machine_cong) (simp_all add: record_call_def)

lemma state_machine_set_active_states [simp]:
  "state_machine d (set_active_states sm xs h) s = state_machine d h s"
  by (rule state_machine_cong) (simp_all add: set_active_states_def)

lemma record_call_fields [simp]:
  "kind_of (record_call c h) = kind_of h" "super_state (record_call c h) = super_state h"
  "active_states (record_call c h) = active_states h"
  "calls (record_call c h) = calls h @ [c]"
  by (simp_all add: record_call_def)

lemma set_active_states_fields [simp]:
  "kind_of (set_active_states sm xs h) = kind_of h"
  "super_state (set_active_states sm xs h) = super_state h"
  "active_states (set_active_states sm xs h) = (active_states h)(sm := xs)"
  "calls (set_active_states sm xs h) = calls h"
  by (simp_all add: set_active_states_def)

text \<open>
  C6. Take a state that is not a pseudo-state, has a parent, and belongs to a machine
  \<open>sm\<close>. Its \<^verbatim>\<open>exit\<close> fails when the state is not where it should be on the stack of
  \<open>sm\<close>: under a parent that is not a concurrent composite, with the position
  assertion when the top of the stack is anything but the state itself; under a
  concurrent composite, with the assertions on the top frame when the top is not a
  set or is a set without the state; and in both cases with Python's
  \<^verbatim>\<open>IndexError\<close>, raised by the read of the top, when the stack is empty. These are
  the failures the specification calls StackInvariantViolated. In the one
  remaining case the state is in position, and \<^verbatim>\<open>exit\<close> succeeds: the exit actions
  have run and the state is off the stack (the top is popped, or the state leaves the
  top frame, which is popped when that empties it).
\<close>

theorem State_exit_stack_position:
  assumes "\<not> is_pseudo (kind_of h s)" and "super_state h s = Some p"
    and "state_machine d h s = Inr sm"
  shows "State_exit d s h =
     (if active_states h sm = [] then Inl IndexError
      else if kind_of h p = ConcurrentCompositeState then
        (case last (active_states h sm) of
           Single t \<Rightarrow> Inl (AssertionError TopOfStackShouldBeASet)
         | Frame S \<Rightarrow>
             (if s \<notin> S then Inl (AssertionError NotAtTopOfStack)
              else Inr (set_active_states sm
                     (if S - {s} = {} then butlast (active_states h sm)
                      else butlast (active_states h sm) @ [Frame (S - {s})])
                     (record_call (ExitActions s) h))))
      else if last (active_states h sm) \<noteq> Single s then Inl (AssertionError NotAtTopOfStack)
      else Inr (set_active_states sm (butlast (active_states h sm))
             (record_call (ExitActions s) h)))"
  using assms
  by (simp add: State_exit_def deactivate_def deactivate_concurrent_state_def Let_def
      split: item.splits)

theorem State_exit_stack_position_witness:
  "\<not> is_pseudo (kind_of simple_machine 3) \<and> super_state simple_machine 3 = Some 0
   \<and> state_machine 2 simple_machine 3 = Inr 0
   \<and> State_exit 2 3 simple_machine =
       Inr (set_active_states 0 [Single 0] (record_call (ExitActions 3) simple_machine))
   \<and> State_exit 2 3 (set_active_states 0 [] simple_machine) = Inl IndexError
   \<and> State_exit 2 3 (set_active_states 0 [Single 3, Single 0] simple_machine)
       = Inl (AssertionError NotAtTopOfStack)"
proof -
  have a: "\<not> is_pseudo (kind_of simple_machine 3)"
    by (simp add: simple_machine_eval is_pseudo_def)
  have b: "super_state simple_machine 3 = Some 0"
    by (simp add: simple_machine_eval)
  have c: "state_machine 2 simple_machine 3 = Inr 0"
    by (simp add: simple_machine_eval)
  have d: "\<not> is_pseudo (kind_of (set_active_states 0 xs simple_machine) 3)"
    "super_state (set_active_states 0 xs simple_machine) 3 = Some 0"
    "state_machine 2 (set_active_states 0 xs simple_machine) 3 = Inr 0" for xs
    using a b c by simp_all
  show ?thesis
    using a b c State_exit_stack_position [OF a b c] State_exit_stack_position [OF d]
    by (simp add: simple_machine_eval)
qed

section \<open>What \<^verbatim>\<open>exit\<close> changes\<close>

text \<open>
  A property of all three \<^verbatim>\<open>exit\<close> methods follows from the same property of
  \<^verbatim>\<open>State.exit\<close> and of the bookkeeping of the two composites, when it is reflexive
  and transitive.
\<close>

lemma exit_rel_induct:
  assumes refl: "\<And>h. R h h"
    and trans: "\<And>a b c. R a b \<Longrightarrow> R b c \<Longrightarrow> R a c"
    and State_exit: "\<And>d s h h'. State_exit d s h = Inr h' \<Longrightarrow> R h h'"
    and remember_state: "\<And>c h. R h (remember_state c h)"
    and remember_states: "\<And>c h h'. remember_states c h = Inr h' \<Longrightarrow> R h h'"
  shows "(\<forall>h'. exit d s h = Inr h' \<longrightarrow> R h h')"
    and "(\<forall>h'. CompositeState_exit d c h = Inr h' \<longrightarrow> R h h')"
    and "(\<forall>h'. ConcurrentCompositeState_exit d c h = Inr h' \<longrightarrow> R h h')"
    and "(\<forall>h'. exit_each d c js h = Inr h' \<longrightarrow> R h h')"
proof (induction d s h and d c h and d c h and d c js h
    rule: exit_CompositeState_exit_ConcurrentCompositeState_exit_exit_each.induct)
  case (1 s h)
  then show ?case by simp
next
  case (2 d s h)
  then show ?case by (auto simp: State_exit)
next
  case (3 d c h)
  then show ?case
    by (auto split: sum.splits) (meson trans State_exit remember_state)
next
  case (4 d c h)
  then show ?case
    by (auto split: sum.splits) (meson trans State_exit remember_states)
next
  case (5 d c h)
  then show ?case by (simp add: refl)
next
  case (6 d c i "is" h)
  then show ?case
    by (auto split: sum.splits) (meson trans)
qed

lemma State_exit_pseudo: "is_pseudo (kind_of h s) \<Longrightarrow> State_exit d s h = Inr h"
  by (simp add: State_exit_def)

lemma State_exit_shape:
  assumes "State_exit d s h = Inr h'" and "\<not> is_pseudo (kind_of h s)"
  shows "\<exists>sm xs. h' = set_active_states sm xs (record_call (ExitActions s) h)
           \<and> state_machine d h s = Inr sm \<and> active_states h sm \<noteq> []
           \<and> holds (last (active_states h sm)) s
           \<and> (xs = butlast (active_states h sm)
                \<or> (\<exists>S. last (active_states h sm) = Frame S
                        \<and> xs = butlast (active_states h sm) @ [Frame (S - {s})]))"
  using assms
  by (auto simp: State_exit_def deactivate_def deactivate_concurrent_state_def Let_def
      split: option.splits sum.splits if_splits item.splits)

lemma on_stack_set_active_states:
  "on_stack (set_active_states sm xs h) sm' p \<longleftrightarrow>
     (if sm' = sm then list_ex (\<lambda>x. holds x p) xs else on_stack h sm' p)"
  by (simp add: on_stack_def)

lemma on_stack_record_call [simp]: "on_stack (record_call c h) sm p = on_stack h sm p"
  by (simp add: on_stack_def)

lemma list_ex_butlast: "list_ex P (butlast xs) \<Longrightarrow> list_ex P xs"
  by (auto simp: list_ex_iff dest: in_set_butlastD)

lemma exited_refl: "exited h h"
  by (simp add: exited_def)

lemma exited_trans: "exited a b \<Longrightarrow> exited b c \<Longrightarrow> exited a c"
  unfolding exited_def by (elim conjE exE) (simp, blast)

lemma exited_State_exit: "State_exit d s h = Inr h' \<Longrightarrow> exited h h'"
proof (cases "is_pseudo (kind_of h s)")
  case True
  assume "State_exit d s h = Inr h'"
  with True show ?thesis by (simp add: State_exit_pseudo exited_refl)
next
  case False
  assume "State_exit d s h = Inr h'"
  from State_exit_shape [OF this False] obtain sm xs where
    h': "h' = set_active_states sm xs (record_call (ExitActions s) h)"
    and ne: "active_states h sm \<noteq> []"
    and xs: "xs = butlast (active_states h sm)
              \<or> (\<exists>S. last (active_states h sm) = Frame S
                      \<and> xs = butlast (active_states h sm) @ [Frame (S - {s})])"
    by blast
  have stack: "list_ex (\<lambda>x. holds x p) xs \<Longrightarrow> list_ex (\<lambda>x. holds x p) (active_states h sm)"
    for p
    using xs
  proof
    assume "xs = butlast (active_states h sm)"
    then show "list_ex (\<lambda>x. holds x p) xs \<Longrightarrow> ?thesis" by (simp add: list_ex_butlast)
  next
    assume "\<exists>S. last (active_states h sm) = Frame S
                \<and> xs = butlast (active_states h sm) @ [Frame (S - {s})]"
    then obtain S where l: "last (active_states h sm) = Frame S"
      and x: "xs = butlast (active_states h sm) @ [Frame (S - {s})]" by blast
    assume "list_ex (\<lambda>x. holds x p) xs"
    then have "list_ex (\<lambda>x. holds x p) (butlast (active_states h sm)) \<or> p \<in> S"
      by (auto simp: x)
    then show ?thesis
    proof
      assume "list_ex (\<lambda>x. holds x p) (butlast (active_states h sm))"
      then show ?thesis by (rule list_ex_butlast)
    next
      assume "p \<in> S"
      then have "holds (last (active_states h sm)) p" by (simp add: l)
      with ne show ?thesis by (auto simp: list_ex_iff)
    qed
  qed
  show ?thesis
    unfolding exited_def h'
    using False stack by (auto simp: on_stack_set_active_states on_stack_def
        set_active_states_def record_call_def)
qed

lemma exited_remember_state: "exited h (remember_state c h)"
  by (auto simp: exited_def remember_state_def on_stack_def split: option.splits)

lemma exited_remember_states: "remember_states c h = Inr h' \<Longrightarrow> exited h h'"
  by (auto simp: exited_def remember_states_def on_stack_def split: option.splits if_splits)

lemma exit_exited:
  assumes "exit d s h = Inr h'"
  shows "exited h h'"
proof -
  have "\<forall>h'. exit d s h = Inr h' \<longrightarrow> exited h h'"
  proof (rule exit_rel_induct(1) [where R = exited])
    show "exited a c" if "exited a b" "exited b c" for a b c :: "('a, 'b) store"
      using that by (rule exited_trans)
  qed (simp_all add: exited_refl exited_State_exit exited_remember_state
      exited_remember_states)
  with assms show ?thesis by blast
qed

lemma exit_numeral [simp]:
  "exit (numeral k) s h =
     (if is_composite (kind_of h s) then CompositeState_exit (pred_numeral k) s h
      else if kind_of h s = ConcurrentCompositeState
        then ConcurrentCompositeState_exit (pred_numeral k) s h
      else State_exit (pred_numeral k) s h)"
  by (simp add: numeral_eq_Suc)

lemma exit_last_step:
  assumes "exit d self h = Inr h1" and "\<not> is_pseudo (kind_of h self)"
  shows "\<exists>h0 d0. exited h h0 \<and> State_exit d0 self h0 = Inr h1"
proof (cases d)
  case 0
  with assms show ?thesis by simp
next
  case (Suc d0)
  show ?thesis
  proof (cases "is_composite (kind_of h self)")
    case True
    with assms Suc obtain h2 where h2: "exit d0 (state h self) h = Inr h2"
      and h1: "State_exit d0 self (remember_state self h2) = Inr h1"
      by (auto split: sum.splits)
    from exit_exited [OF h2] exited_remember_state [of h2 self]
    have "exited h (remember_state self h2)" by (rule exited_trans)
    with h1 show ?thesis by blast
  next
    case nc: False
    show ?thesis
    proof (cases "kind_of h self = ConcurrentCompositeState")
      case True
      with nc assms Suc obtain h2 h3
        where h2: "exit_each d0 self [0..<length (states h self)] h = Inr h2"
          and h3: "remember_states self h2 = Inr h3"
          and h1: "State_exit d0 self h3 = Inr h1"
        by (auto split: sum.splits)
      have "\<forall>h'. exit_each d0 self [0..<length (states h self)] h = Inr h' \<longrightarrow> exited h h'"
      proof (rule exit_rel_induct(4) [where R = exited])
        show "exited a c" if "exited a b" "exited b c" for a b c :: "('a, 'b) store"
          using that by (rule exited_trans)
      qed (simp_all add: exited_refl exited_State_exit exited_remember_state
          exited_remember_states)
      with h2 have "exited h h2" by blast
      with exited_remember_states [OF h3] have "exited h h3" by (rule exited_trans [rotated])
      with h1 show ?thesis by blast
    next
      case False
      with nc assms Suc have "State_exit d0 self h = Inr h1" by simp
      with exited_refl show ?thesis by blast
    qed
  qed
qed

lemma exit_pseudo:
  assumes "exit d self h = Inr h1" and "is_pseudo (kind_of h self)"
  shows "h1 = h"
proof (cases d)
  case 0
  with assms show ?thesis by simp
next
  case (Suc d0)
  with assms show ?thesis
    by (auto simp: is_pseudo_def is_composite_def State_exit_def)
qed

lemma exit_leaves:
  assumes "exit d self (h :: ('f, 'v) store) = Inr h1" and "\<not> is_pseudo (kind_of h self)"
  shows "\<exists>(h0 :: ('f, 'v) store) sm cs.
           calls h0 = calls h @ cs \<and> (\<forall>c \<in> set cs. \<exists>q. c = ExitActions q)
           \<and> (\<forall>sm' p. on_stack h0 sm' p \<longrightarrow> on_stack h sm' p)
           \<and> calls h1 = calls h0 @ [ExitActions self]
           \<and> active_states h0 sm \<noteq> [] \<and> holds (last (active_states h0 sm)) self
           \<and> (active_states h1 = (active_states h0)(sm := butlast (active_states h0 sm))
                \<or> (\<exists>S. last (active_states h0 sm) = Frame S
                       \<and> active_states h1 = (active_states h0)
                            (sm := butlast (active_states h0 sm) @ [Frame (S - {self})])))"
proof -
  from exit_last_step [OF assms] obtain h0 d0
    where h0: "exited h h0" and se: "State_exit d0 self h0 = Inr h1" by blast
  from h0 assms(2) have "\<not> is_pseudo (kind_of h0 self)" by (simp add: exited_def)
  from State_exit_shape [OF se this] obtain sm xs where
    h1: "h1 = set_active_states sm xs (record_call (ExitActions self) h0)"
    and top: "active_states h0 sm \<noteq> []" "holds (last (active_states h0 sm)) self"
    and xs: "xs = butlast (active_states h0 sm)
              \<or> (\<exists>S. last (active_states h0 sm) = Frame S
                      \<and> xs = butlast (active_states h0 sm) @ [Frame (S - {self})])"
    by blast
  from h0 obtain cs where cs: "calls h0 = calls h @ cs" "\<forall>c \<in> set cs. \<exists>q. c = ExitActions q"
    and st: "\<forall>sm' p. on_stack h0 sm' p \<longrightarrow> on_stack h sm' p"
    unfolding exited_def by blast
  have c1: "calls h1 = calls h0 @ [ExitActions self]"
    and a1: "active_states h1 = (active_states h0)(sm := xs)"
    by (simp_all add: h1)
  have rm: "active_states h1 = (active_states h0)(sm := butlast (active_states h0 sm))
          \<or> (\<exists>S. last (active_states h0 sm) = Frame S
                 \<and> active_states h1 = (active_states h0)
                      (sm := butlast (active_states h0 sm) @ [Frame (S - {self})]))"
    using xs a1 by auto
  show ?thesis
  proof (intro exI conjI)
    show "calls h0 = calls h @ cs" by (rule cs(1))
    show "\<forall>c \<in> set cs. \<exists>q. c = ExitActions q" by (rule cs(2))
    show "\<forall>sm' p. on_stack h0 sm' p \<longrightarrow> on_stack h sm' p" by (rule st)
    show "calls h1 = calls h0 @ [ExitActions self]" by (rule c1)
    show "active_states h0 sm \<noteq> []" by (rule top(1))
    show "holds (last (active_states h0 sm)) self" by (rule top(2))
    show "active_states h1 = (active_states h0)(sm := butlast (active_states h0 sm))
          \<or> (\<exists>S. last (active_states h0 sm) = Frame S
                 \<and> active_states h1 = (active_states h0)
                      (sm := butlast (active_states h0 sm) @ [Frame (S - {self})]))"
      by (rule rm)
  qed
qed


section \<open>Properties of \<^verbatim>\<open>State.transition\<close>\<close>

lemma run_actions_eq:
  "run_actions actions h = h\<lparr>calls := calls h @ map TransitionAction actions\<rparr>"
  unfolding run_actions_def
  by (induction actions arbitrary: h) (simp_all add: record_call_def)

lemma transition_after_exit:
  assumes "exit d self h = Inr h1"
  shows "transition d self new_state actions h =
     (if kind_of h new_state = FinalState then Inr (new_state, acted actions new_state h1)
      else (case (if super_state_is_concurrent h self
                  then activate_concurrent_state d new_state (acted actions new_state h1)
                  else activate d new_state (acted actions new_state h1)) of
              Inl e \<Rightarrow> Inl e
            | Inr h4 \<Rightarrow> Inr (new_state, h4)))"
proof -
  from exit_exited [OF assms] have k: "kind_of h1 = kind_of h" "super_state h1 = super_state h"
    by (simp_all add: exited_def)
  have a: "(if \<not> is_pseudo (kind_of (run_actions actions h1) new_state)
            then entry new_state (run_actions actions h1)
            else run_actions actions h1) = acted actions new_state h1"
    by (simp add: acted_def run_actions_eq entry_def record_call_def k)
  have b: "kind_of (acted actions new_state h1) = kind_of h"
    "super_state_is_concurrent (acted actions new_state h1) self
       = super_state_is_concurrent h self"
    by (simp_all add: acted_def k super_state_is_concurrent_def split: option.splits)
  show ?thesis
    unfolding transition_def Let_def assms sum.case a b by simp
qed

lemma transition_Inr_iff:
  "transition d self new_state actions h = Inr (r, h') \<longleftrightarrow>
     r = new_state
     \<and> (\<exists>h1. exit d self h = Inr h1
           \<and> (if kind_of h new_state = FinalState then h' = acted actions new_state h1
               else if super_state_is_concurrent h self
                 then activate_concurrent_state d new_state (acted actions new_state h1) = Inr h'
               else activate d new_state (acted actions new_state h1) = Inr h'))"
proof (cases "exit d self h")
  case (Inl e)
  then show ?thesis by (simp add: transition_def)
next
  case (Inr h1)
  show ?thesis
    unfolding transition_after_exit [OF Inr] Inr
    by (auto split: sum.splits)
qed


lemma transition_to_calls_and_stack:
  assumes "CompositeState_transition_to d c new_state actions h = Inr g"
  shows "\<exists>g0. transition d (state h c) new_state actions h = Inr (new_state, g0)
           \<and> calls g = calls g0 \<and> active_states g = active_states g0"
proof -
  from assms obtain r h1 where tr: "transition d (state h c) new_state actions h = Inr (r, h1)"
    by (auto simp: CompositeState_transition_to_def split: sum.splits)
  from tr [unfolded transition_Inr_iff] have r: "r = new_state" by simp
  from assms tr have "calls g = calls h1 \<and> active_states g = active_states h1"
    by (auto simp: CompositeState_transition_to_def Let_def trigger_tick_def
        split: sum.splits if_splits)
  with tr r show ?thesis by simp
qed

lemma concurrent_transition_to_calls_and_stack:
  assumes "ConcurrentCompositeState_transition_to d c new_state i actions h = Inr g"
  shows "\<exists>j g0. j < length (states h c)
           \<and> (i = int j \<or> i = int j - int (length (states h c)))
           \<and> transition d (states h c ! j) new_state actions h = Inr (new_state, g0)
           \<and> calls g = calls g0 \<and> active_states g = active_states g0"
proof -
  let ?n = "int (length (states h c))"
  let ?j = "if i < 0 then ?n + i else i"
  from assms have rng: "0 \<le> ?j" "?j < ?n"
    by (auto simp: ConcurrentCompositeState_transition_to_def Let_def split: if_splits)
  with assms obtain r h1 where
    tr: "transition d (states h c ! nat ?j) new_state actions h = Inr (r, h1)"
    by (auto simp: ConcurrentCompositeState_transition_to_def Let_def
        split: sum.splits if_splits)
  from tr [unfolded transition_Inr_iff] have r: "r = new_state" by simp
  from assms tr rng have "calls g = calls h1 \<and> active_states g = active_states h1"
    by (auto simp: ConcurrentCompositeState_transition_to_def Let_def
        split: sum.splits if_splits)
  moreover from rng have "nat ?j < length (states h c)" by auto
  moreover from rng have "i = int (nat ?j) \<or> i = int (nat ?j) - ?n" by auto
  ultimately show ?thesis using tr r by blast
qed


text \<open>
  C1. A transition is the exit of the source, then the actions, then the entry of the
  target, then its activation, and it returns the target. If the exit fails, the
  transition fails with the same error and nothing else has run. If the exit
  succeeds and leaves the store \<open>h1\<close>, then: a source that is a pseudo-state has
  changed nothing; for any other source, at some store \<open>h0\<close> that only exit actions
  (of the states inside the source) separate from the start, the source was at the top
  of the stack, and \<open>h1\<close> is \<open>h0\<close> with the exit actions of the source recorded last
  and the source off the stack. The rest of the transition starts from \<open>h3\<close>, which is
  \<open>h1\<close> with the actions recorded in the order given and, after them, the entry
  actions of the target unless it is a pseudo-state. A final target is returned with
  \<open>h3\<close> as it is, so with the stack that the exit has left. Any other target is
  returned with \<open>h3\<close> and a new stack for the machine of the target. When the parent
  of the source is not a concurrent composite, the new stack is the one that the exit
  has left with the target pushed onto it as a single state. When the parent of the
  source is a concurrent composite, it is that stack with the target inserted into
  the set at its top or, if its top is not a set, with the set that holds just the
  target pushed onto it; reading the top of an empty stack raises \<^verbatim>\<open>IndexError\<close>.
  Both \<^verbatim>\<open>_transition_to\<close> methods are this transition on a current child of the
  composite: when one of them completes, the transition of that child to the target
  has completed, and the calls recorded and the stacks are those it has left.
\<close>

theorem transition_phases:
  "(\<forall>e. exit d self (h :: ('f, 'v) store) = Inl e \<longrightarrow>
        transition d self new_state actions h = Inl e)
   \<and> (\<forall>h1. exit d self h = Inr h1 \<longrightarrow>
         (if is_pseudo (kind_of h self) then h1 = h
          else (\<exists>(h0 :: ('f, 'v) store) sm cs.
                  calls h0 = calls h @ cs \<and> (\<forall>c \<in> set cs. \<exists>q. c = ExitActions q)
                  \<and> (\<forall>sm' p. on_stack h0 sm' p \<longrightarrow> on_stack h sm' p)
                  \<and> calls h1 = calls h0 @ [ExitActions self]
                  \<and> active_states h0 sm \<noteq> [] \<and> holds (last (active_states h0 sm)) self
                  \<and> (active_states h1 = (active_states h0)(sm := butlast (active_states h0 sm))
                       \<or> (\<exists>S. last (active_states h0 sm) = Frame S
                              \<and> active_states h1 = (active_states h0)
                                   (sm := butlast (active_states h0 sm) @ [Frame (S - {self})])))))
       \<and> transition d self new_state actions h =
           (let h3 = h1\<lparr>calls := calls h1 @ map TransitionAction actions
                       @ (if is_pseudo (kind_of h new_state) then []
                          else [EntryActions new_state])\<rparr>;
                stack = active_states h1
            in if kind_of h new_state = FinalState then Inr (new_state, h3)
               else (case state_machine d h new_state of
                       Inl e \<Rightarrow> Inl e
                     | Inr sm \<Rightarrow>
                         (if (case super_state h self of
                                None \<Rightarrow> False
                              | Some p \<Rightarrow> kind_of h p = ConcurrentCompositeState)
                          then
                            (if stack sm = [] then Inl IndexError
                             else Inr (new_state,
                                    h3\<lparr>active_states := stack
                                         (sm := (case last (stack sm) of
                                                   Single t \<Rightarrow> stack sm @ [Frame {new_state}]
                                                 | Frame S \<Rightarrow> butlast (stack sm)
                                                     @ [Frame (insert new_state S)]))\<rparr>))
                          else Inr (new_state,
                                 h3\<lparr>active_states := stack
                                      (sm := stack sm @ [Single new_state])\<rparr>)))))
   \<and> (\<forall>c g. CompositeState_transition_to d c new_state actions h = Inr g \<longrightarrow>
         (\<exists>g0. transition d (state h c) new_state actions h = Inr (new_state, g0)
               \<and> calls g = calls g0 \<and> active_states g = active_states g0))
   \<and> (\<forall>c i g. ConcurrentCompositeState_transition_to d c new_state i actions h = Inr g \<longrightarrow>
         (\<exists>j g0. j < length (states h c)
               \<and> (i = int j \<or> i = int j - int (length (states h c)))
               \<and> transition d (states h c ! j) new_state actions h = Inr (new_state, g0)
               \<and> calls g = calls g0 \<and> active_states g = active_states g0))"
proof (intro conjI allI impI)
  fix e assume "exit d self h = Inl e"
  then show "transition d self new_state actions h = Inl e"
    by (simp add: transition_def)
next
  fix h1 assume ex: "exit d self h = Inr h1"
  show "if is_pseudo (kind_of h self) then h1 = h
          else (\<exists>(h0 :: ('f, 'v) store) sm cs.
                  calls h0 = calls h @ cs \<and> (\<forall>c \<in> set cs. \<exists>q. c = ExitActions q)
                  \<and> (\<forall>sm' p. on_stack h0 sm' p \<longrightarrow> on_stack h sm' p)
                  \<and> calls h1 = calls h0 @ [ExitActions self]
                  \<and> active_states h0 sm \<noteq> [] \<and> holds (last (active_states h0 sm)) self
                  \<and> (active_states h1 = (active_states h0)(sm := butlast (active_states h0 sm))
                       \<or> (\<exists>S. last (active_states h0 sm) = Frame S
                              \<and> active_states h1 = (active_states h0)
                                   (sm := butlast (active_states h0 sm) @ [Frame (S - {self})]))))"
  proof (cases "is_pseudo (kind_of h self)")
    case True
    with exit_pseudo [OF ex] show ?thesis by simp
  next
    case False
    from exit_leaves [OF ex False] False show ?thesis by (simp only: if_False)
  qed
next
  fix h1 assume ex: "exit d self h = Inr h1"
  from exit_exited [OF ex] have k: "kind_of h1 = kind_of h" "super_state h1 = super_state h"
    by (simp_all add: exited_def)
  let ?h3 = "acted actions new_state h1"
  have sm3: "state_machine d ?h3 new_state = state_machine d h new_state"
    by (rule state_machine_cong) (simp_all add: acted_def k)
  have st: "active_states ?h3 = active_states h1" by (simp add: acted_def)
  have a: "activate d new_state ?h3 =
     (case state_machine d h new_state of Inl e \<Rightarrow> Inl e
      | Inr sm \<Rightarrow> Inr (?h3\<lparr>active_states := (active_states h1)
                              (sm := active_states h1 sm @ [Single new_state])\<rparr>))"
    by (simp add: activate_def sm3 st set_active_states_def split: sum.splits)
  have c: "activate_concurrent_state d new_state ?h3 =
     (case state_machine d h new_state of Inl e \<Rightarrow> Inl e
      | Inr sm \<Rightarrow>
          (if active_states h1 sm = [] then Inl IndexError
           else Inr (?h3\<lparr>active_states := (active_states h1)
                        (sm := (case last (active_states h1 sm) of
                                  Single t \<Rightarrow> active_states h1 sm @ [Frame {new_state}]
                                | Frame S \<Rightarrow> butlast (active_states h1 sm)
                                    @ [Frame (insert new_state S)]))\<rparr>)))"
    by (simp add: activate_concurrent_state_def sm3 st set_active_states_def
        split: sum.splits item.splits)
  have h3: "?h3 = h1\<lparr>calls := calls h1 @ map TransitionAction actions
                       @ (if is_pseudo (kind_of h new_state) then []
                          else [EntryActions new_state])\<rparr>"
    by (simp add: acted_def k)
  show "transition d self new_state actions h =
           (let h3 = h1\<lparr>calls := calls h1 @ map TransitionAction actions
                       @ (if is_pseudo (kind_of h new_state) then []
                          else [EntryActions new_state])\<rparr>;
                stack = active_states h1
            in if kind_of h new_state = FinalState then Inr (new_state, h3)
               else (case state_machine d h new_state of
                       Inl e \<Rightarrow> Inl e
                     | Inr sm \<Rightarrow>
                         (if (case super_state h self of
                                None \<Rightarrow> False
                              | Some p \<Rightarrow> kind_of h p = ConcurrentCompositeState)
                          then
                            (if stack sm = [] then Inl IndexError
                             else Inr (new_state,
                                    h3\<lparr>active_states := stack
                                         (sm := (case last (stack sm) of
                                                   Single t \<Rightarrow> stack sm @ [Frame {new_state}]
                                                 | Frame S \<Rightarrow> butlast (stack sm)
                                                     @ [Frame (insert new_state S)]))\<rparr>))
                          else Inr (new_state,
                                 h3\<lparr>active_states := stack
                                      (sm := stack sm @ [Single new_state])\<rparr>))))"
    unfolding transition_after_exit [OF ex] a c h3 [symmetric] Let_def
    by (simp add: super_state_is_concurrent_def split: sum.splits)
next
  fix c g assume "CompositeState_transition_to d c new_state actions h = Inr g"
  then show "\<exists>g0. transition d (state h c) new_state actions h = Inr (new_state, g0)
               \<and> calls g = calls g0 \<and> active_states g = active_states g0"
    by (rule transition_to_calls_and_stack)
next
  fix c i g
  assume "ConcurrentCompositeState_transition_to d c new_state i actions h = Inr g"
  then show "\<exists>j g0. j < length (states h c)
               \<and> (i = int j \<or> i = int j - int (length (states h c)))
               \<and> transition d (states h c ! j) new_state actions h = Inr (new_state, g0)
               \<and> calls g = calls g0 \<and> active_states g = active_states g0"
    by (rule concurrent_transition_to_calls_and_stack)
qed


section \<open>More on the examples\<close>

lemma simple_machine_fields:
  "kind_of simple_machine 0 = StateMachine" "kind_of simple_machine 1 = InitialState"
  "kind_of simple_machine (Suc 0) = InitialState" "super_state simple_machine (Suc 0) = Some 0"
  "kind_of simple_machine 2 = FinalState" "kind_of simple_machine 3 = State"
  "kind_of simple_machine 4 = State"
  "super_state simple_machine 0 = None" "super_state simple_machine 1 = Some 0"
  "super_state simple_machine 2 = Some 0" "super_state simple_machine 3 = Some 0"
  "super_state simple_machine 4 = Some 0"
  "final simple_machine 0 = 2" "state simple_machine 0 = 3"
  "tick_event simple_machine 0 = False"
  "active_states simple_machine 0 = [Single 0, Single 3]"
  "calls simple_machine = [EntryActions 3]"
  by (simp_all add: simple_machine_def construction_defs transition_defs eval_nat_numeral)

lemma history_machine_fields:
  "kind_of history_machine 0 = StateMachine" "kind_of history_machine 3 = CompositeState"
  "kind_of history_machine 6 = HistoryState" "kind_of history_machine 8 = State"
  "super_state history_machine 3 = Some 0" "super_state history_machine 8 = Some 3"
  "super_state history_machine 6 = Some 3"
  "history history_machine 3 = Some 6" "final history_machine 3 = 5"
  "state history_machine 3 = 8"
  "active_states history_machine 0 = [Single 0, Single 3, Single 8]"
  "calls history_machine = [EntryActions 3, EntryActions 7, ExitActions 7, EntryActions 8]"
  by (simp_all add: history_machine_def construction_defs eval_nat_numeral)

lemma history_machine_reentered_fields:
  "kind_of history_machine_reentered = kind_of history_machine"
  "super_state history_machine_reentered = super_state history_machine"
  "history history_machine_reentered = history history_machine"
  "state history_machine_reentered 3 = 6"
  "state_to_return_to history_machine_reentered 6 = Some 8"
  "active_states history_machine_reentered 0 = [Single 0, Single 3]"
  "calls history_machine_reentered = []"
  by (simp_all add: history_machine_reentered_def)

lemma simple_machine_exit:
  "exit 3 3 simple_machine =
     Inr (set_active_states 0 [Single 0] (record_call (ExitActions 3) simple_machine))"
  by (simp add: simple_machine_fields State_exit_def is_composite_def is_pseudo_def
      deactivate_def)

lemma simple_machine_to_final:
  "transition 3 3 2 [7] simple_machine =
     Inr (2, simple_machine
               \<lparr>active_states := (active_states simple_machine)(0 := [Single 0]),
                calls := [EntryActions 3, ExitActions 3, TransitionAction 7]\<rparr>)"
  by (simp add: transition_def simple_machine_fields State_exit_def is_composite_def
      is_pseudo_def deactivate_def run_actions_def Let_def set_active_states_def
      record_call_def)

lemma simple_machine_to_initial:
  "transition 3 3 1 [] simple_machine =
     Inr (1, simple_machine
               \<lparr>active_states := (active_states simple_machine)(0 := [Single 0, Single 1]),
                calls := [EntryActions 3, ExitActions 3]\<rparr>)"
  by (simp add: transition_def simple_machine_fields State_exit_def is_composite_def
      is_pseudo_def deactivate_def activate_def run_actions_def Let_def
      super_state_is_concurrent_def set_active_states_def record_call_def)


lemma region_machine_fields:
  "kind_of region_machine 0 = StateMachine"
  "kind_of region_machine 3 = ConcurrentCompositeState"
  "kind_of region_machine 6 = State" "kind_of region_machine 7 = State"
  "kind_of region_machine 8 = State"
  "super_state region_machine 3 = Some 0" "super_state region_machine 6 = Some 3"
  "super_state region_machine 7 = Some 3" "super_state region_machine 8 = Some 3"
  "states region_machine 3 = [6, 8]"
  "active_states region_machine 0 = [Single 0, Single 3, Frame {6, 8}]"
  "calls region_machine = [EntryActions 3, EntryActions 6, EntryActions 8]"
  by (simp_all add: region_machine_def construction_defs eval_nat_numeral)

lemma region_machine_more:
  "kind_of region_machine 4 = InitialState" "super_state region_machine 4 = Some 3"
  by (simp_all add: region_machine_def construction_defs eval_nat_numeral)

lemma region_machine_entered_fields:
  "kind_of region_machine_entered = kind_of region_machine"
  "super_state region_machine_entered = super_state region_machine"
  "active_states region_machine_entered 0 = [Single 0, Single 3]"
  "calls region_machine_entered = [EntryActions 3]"
  by (simp_all add: region_machine_entered_def)

lemma region_machine_exit:
  "exit 4 6 region_machine =
     Inr (set_active_states 0 [Single 0, Single 3, Frame {8}]
            (record_call (ExitActions 6) region_machine))"
  by (simp add: region_machine_fields State_exit_def is_composite_def is_pseudo_def
      deactivate_concurrent_state_def)

lemma region_machine_entered_exit:
  "exit 4 4 region_machine_entered = Inr region_machine_entered"
  by (simp add: region_machine_entered_fields region_machine_fields region_machine_more
      State_exit_def is_composite_def is_pseudo_def)

lemma simple_machine_exit_fails:
  "exit 3 4 simple_machine = Inl (AssertionError NotAtTopOfStack)"
  by (simp add: simple_machine_fields State_exit_def is_composite_def is_pseudo_def
      Let_def record_call_def)

lemma region_machine_to_region_state:
  "transition 4 6 7 [5] region_machine =
     Inr (7, region_machine
               \<lparr>active_states := (active_states region_machine)
                                   (0 := [Single 0, Single 3, Frame {7, 8}]),
                calls := [EntryActions 3, EntryActions 6, EntryActions 8, ExitActions 6,
                          TransitionAction 5, EntryActions 7]\<rparr>)"
  by (simp add: transition_def region_machine_fields State_exit_def is_composite_def
      is_pseudo_def deactivate_concurrent_state_def activate_concurrent_state_def
      run_actions_def entry_def Let_def super_state_is_concurrent_def set_active_states_def
      record_call_def)

lemma region_machine_transition_to_ok:
  "\<not> isl (ConcurrentCompositeState_transition_to 4 3 7 0 [5] region_machine)"
  by (simp add: ConcurrentCompositeState_transition_to_def region_machine_fields
      region_machine_to_region_state Let_def)


theorem transition_phases_witness:
  "exit 3 4 simple_machine = Inl (AssertionError NotAtTopOfStack)
   \<and> transition 3 4 3 [7] simple_machine = Inl (AssertionError NotAtTopOfStack)
   \<and> exit 3 3 simple_machine =
       Inr (set_active_states 0 [Single 0] (record_call (ExitActions 3) simple_machine))
   \<and> \<not> is_pseudo (kind_of simple_machine 3)
   \<and> transition 3 3 4 [7] simple_machine =
       Inr (4, simple_machine
                 \<lparr>active_states := (active_states simple_machine)(0 := [Single 0, Single 4]),
                  calls := [EntryActions 3, ExitActions 3, TransitionAction 7,
                            EntryActions 4]\<rparr>)
   \<and> super_state region_machine 6 = Some 3
   \<and> kind_of region_machine 3 = ConcurrentCompositeState
   \<and> active_states region_machine 0 = [Single 0, Single 3, Frame {6, 8}]
   \<and> transition 4 6 7 [5] region_machine =
       Inr (7, region_machine
                 \<lparr>active_states := (active_states region_machine)
                                     (0 := [Single 0, Single 3, Frame {7, 8}]),
                  calls := [EntryActions 3, EntryActions 6, EntryActions 8, ExitActions 6,
                            TransitionAction 5, EntryActions 7]\<rparr>)
   \<and> super_state region_machine_entered 4 = Some 3
   \<and> active_states region_machine_entered 0 = [Single 0, Single 3]
   \<and> transition 4 4 6 [] region_machine_entered =
       Inr (6, region_machine_entered
                 \<lparr>active_states := (active_states region_machine_entered)
                                     (0 := [Single 0, Single 3, Frame {6}]),
                  calls := [EntryActions 3, EntryActions 6]\<rparr>)
   \<and> \<not> isl (ConcurrentCompositeState_transition_to 4 3 7 0 [5] region_machine)
   \<and> calls (projr (ConcurrentCompositeState_transition_to 4 3 7 0 [5] region_machine))
       = [EntryActions 3, EntryActions 6, EntryActions 8, ExitActions 6,
          TransitionAction 5, EntryActions 7]
   \<and> active_states (projr (ConcurrentCompositeState_transition_to 4 3 7 0 [5] region_machine)) 0
       = [Single 0, Single 3, Frame {7, 8}]"
proof -
  have a: "transition 3 4 3 [7] simple_machine = Inl (AssertionError NotAtTopOfStack)"
    using transition_phases [of 3 4 simple_machine 3 "[7]"] simple_machine_exit_fails
    by simp
  have b: "transition 3 3 4 [7] simple_machine =
       Inr (4, simple_machine
                 \<lparr>active_states := (active_states simple_machine)(0 := [Single 0, Single 4]),
                  calls := [EntryActions 3, ExitActions 3, TransitionAction 7,
                            EntryActions 4]\<rparr>)"
    using transition_phases [of 3 3 simple_machine 4 "[7]"] simple_machine_exit
    by (simp add: simple_machine_fields is_pseudo_def set_active_states_def record_call_def)
  have c: "transition 4 6 7 [5] region_machine =
       Inr (7, region_machine
                 \<lparr>active_states := (active_states region_machine)
                                     (0 := [Single 0, Single 3, Frame {7, 8}]),
                  calls := [EntryActions 3, EntryActions 6, EntryActions 8, ExitActions 6,
                            TransitionAction 5, EntryActions 7]\<rparr>)"
    using transition_phases [of 4 6 region_machine 7 "[5]"] region_machine_exit
    by (simp add: region_machine_fields is_pseudo_def set_active_states_def record_call_def)
  have d: "transition 4 4 6 [] region_machine_entered =
       Inr (6, region_machine_entered
                 \<lparr>active_states := (active_states region_machine_entered)
                                     (0 := [Single 0, Single 3, Frame {6}]),
                  calls := [EntryActions 3, EntryActions 6]\<rparr>)"
    using transition_phases [of 4 4 region_machine_entered 6 "[]"] region_machine_entered_exit
    by (simp add: region_machine_entered_fields region_machine_fields region_machine_more
        is_pseudo_def)
  have ok: "\<not> isl (ConcurrentCompositeState_transition_to 4 3 7 0 [5] region_machine)"
    by (rule region_machine_transition_to_ok)
  then have eq: "ConcurrentCompositeState_transition_to 4 3 7 0 [5] region_machine
      = Inr (projr (ConcurrentCompositeState_transition_to 4 3 7 0 [5] region_machine))"
    by (cases "ConcurrentCompositeState_transition_to 4 3 7 0 [5] region_machine") simp_all
  from transition_phases [of 4 6 region_machine 7 "[5]"] eq
  obtain j g0 where j: "j < length (states region_machine 3)"
      "(0 :: int) = int j \<or> 0 = int j - int (length (states region_machine 3))"
    and g0: "transition 4 (states region_machine 3 ! j) 7 [5] region_machine = Inr (7, g0)"
      "calls (projr (ConcurrentCompositeState_transition_to 4 3 7 0 [5] region_machine))
         = calls g0"
      "active_states (projr (ConcurrentCompositeState_transition_to 4 3 7 0 [5] region_machine))
         = active_states g0"
    by blast
  from j have j0: "j = 0" by (auto simp: region_machine_fields)
  from g0(1) c have "g0 = region_machine
                 \<lparr>active_states := (active_states region_machine)
                                     (0 := [Single 0, Single 3, Frame {7, 8}]),
                  calls := [EntryActions 3, EntryActions 6, EntryActions 8, ExitActions 6,
                            TransitionAction 5, EntryActions 7]\<rparr>"
    by (simp add: j0 region_machine_fields)
  with g0(2,3) have e: "calls (projr (ConcurrentCompositeState_transition_to 4 3 7 0 [5] region_machine))
       = [EntryActions 3, EntryActions 6, EntryActions 8, ExitActions 6,
          TransitionAction 5, EntryActions 7]"
    "active_states (projr (ConcurrentCompositeState_transition_to 4 3 7 0 [5] region_machine)) 0
       = [Single 0, Single 3, Frame {7, 8}]"
    by simp_all
  from a b c d ok e simple_machine_exit simple_machine_exit_fails show ?thesis
    by (simp add: simple_machine_fields region_machine_fields region_machine_entered_fields
        region_machine_more is_pseudo_def)
qed


section \<open>Pseudo-states\<close>

lemma activate_Inr:
  assumes "activate d s g = Inr g'"
  shows "\<exists>sm. state_machine d g s = Inr sm
           \<and> g' = set_active_states sm (active_states g sm @ [Single s]) g"
  using assms by (auto simp: activate_def split: sum.splits)

lemma activate_concurrent_state_Inr:
  assumes "activate_concurrent_state d s g = Inr g'"
  shows "\<exists>sm xs. state_machine d g s = Inr sm \<and> g' = set_active_states sm xs g
           \<and> active_states g sm \<noteq> []
           \<and> (xs = active_states g sm @ [Frame {s}]
                \<or> (\<exists>S. last (active_states g sm) = Frame S
                       \<and> xs = butlast (active_states g sm) @ [Frame (insert s S)]))"
  using assms
  by (auto simp: activate_concurrent_state_def split: sum.splits if_splits item.splits)

lemma list_ex_butlast_snoc:
  assumes "xs \<noteq> []" and "last xs = Frame S"
  shows "list_ex (\<lambda>x. holds x p) (butlast xs @ [Frame (insert s S)])
           \<longleftrightarrow> list_ex (\<lambda>x. holds x p) xs \<or> p = s"
proof -
  from assms have eq: "xs = butlast xs @ [Frame S]" by (metis append_butlast_last_id)
  have "set xs = set (butlast xs) \<union> {Frame S}"
    using arg_cong [OF eq, of set] by simp
  then show ?thesis by (auto simp: list_ex_iff)
qed

lemma activated_on_stack:
  assumes "(if conc then activate_concurrent_state d s g else activate d s g) = Inr g'"
  shows "calls g' = calls g \<and> kind_of g' = kind_of g \<and> super_state g' = super_state g
      \<and> tick_event g' = tick_event g \<and> state g' = state g
      \<and> state_to_return_to g' = state_to_return_to g
      \<and> history g' = history g \<and> final g' = final g
      \<and> (\<exists>sm. state_machine d g s = Inr sm
            \<and> (\<forall>sm' p. on_stack g' sm' p \<longleftrightarrow> on_stack g sm' p \<or> (sm' = sm \<and> p = s)))"
proof (cases conc)
  case True
  with assms have "activate_concurrent_state d s g = Inr g'" by simp
  from activate_concurrent_state_Inr [OF this] obtain sm xs where
    sm: "state_machine d g s = Inr sm" and g': "g' = set_active_states sm xs g"
    and ne: "active_states g sm \<noteq> []"
    and xs: "xs = active_states g sm @ [Frame {s}]
                \<or> (\<exists>S. last (active_states g sm) = Frame S
                       \<and> xs = butlast (active_states g sm) @ [Frame (insert s S)])"
    by blast
  have "list_ex (\<lambda>x. holds x p) xs \<longleftrightarrow> on_stack g sm p \<or> p = s" for p
    using xs
  proof
    assume "xs = active_states g sm @ [Frame {s}]"
    then show ?thesis by (auto simp: on_stack_def)
  next
    assume "\<exists>S. last (active_states g sm) = Frame S
               \<and> xs = butlast (active_states g sm) @ [Frame (insert s S)]"
    then obtain S where l: "last (active_states g sm) = Frame S"
      and x: "xs = butlast (active_states g sm) @ [Frame (insert s S)]" by blast
    from list_ex_butlast_snoc [OF ne l, of p s] show ?thesis
      by (simp add: x on_stack_def)
  qed
  then have "\<forall>sm' p. on_stack g' sm' p \<longleftrightarrow> on_stack g sm' p \<or> (sm' = sm \<and> p = s)"
    by (auto simp: g' on_stack_set_active_states)
  with sm show ?thesis by (simp add: g' set_active_states_def)
next
  case False
  with assms have "activate d s g = Inr g'" by simp
  from activate_Inr [OF this] obtain sm where
    sm: "state_machine d g s = Inr sm"
    and g': "g' = set_active_states sm (active_states g sm @ [Single s]) g"
    by blast
  have "\<forall>sm' p. on_stack g' sm' p \<longleftrightarrow> on_stack g sm' p \<or> (sm' = sm \<and> p = s)"
    by (auto simp: g' on_stack_set_active_states on_stack_def)
  with sm show ?thesis by (simp add: g' set_active_states_def)
qed

lemma transition_Inr:
  assumes "transition d self new_state actions h = Inr (r, h')"
  shows "r = new_state \<and> kind_of h' = kind_of h \<and> super_state h' = super_state h
      \<and> tick_event h' = tick_event h \<and> history h' = history h \<and> final h' = final h
      \<and> (\<exists>h1. exit d self h = Inr h1
            \<and> calls h' = calls h1 @ map TransitionAction actions
                 @ (if is_pseudo (kind_of h new_state) then [] else [EntryActions new_state])
            \<and> state h' = state h1 \<and> state_to_return_to h' = state_to_return_to h1
            \<and> (if kind_of h new_state = FinalState
                then \<forall>sm p. on_stack h' sm p \<longleftrightarrow> on_stack h1 sm p
                else \<exists>sm. state_machine d h new_state = Inr sm
                       \<and> (\<forall>sm' p. on_stack h' sm' p
                              \<longleftrightarrow> on_stack h1 sm' p \<or> (sm' = sm \<and> p = new_state))))"
proof -
  from assms [unfolded transition_Inr_iff] obtain h1 where
    r: "r = new_state" and ex: "exit d self h = Inr h1"
    and rest: "if kind_of h new_state = FinalState then h' = acted actions new_state h1
               else (if super_state_is_concurrent h self
                     then activate_concurrent_state d new_state (acted actions new_state h1)
                     else activate d new_state (acted actions new_state h1)) = Inr h'"
    by (auto split: if_splits)
  let ?h3 = "acted actions new_state h1"
  from exit_exited [OF ex] have e: "exited h h1" .
  then have k: "kind_of h1 = kind_of h" "super_state h1 = super_state h"
    "tick_event h1 = tick_event h" "history h1 = history h" "final h1 = final h"
    by (simp_all add: exited_def)
  have h3: "calls ?h3 = calls h1 @ map TransitionAction actions
                 @ (if is_pseudo (kind_of h new_state) then [] else [EntryActions new_state])"
    "kind_of ?h3 = kind_of h" "super_state ?h3 = super_state h" "tick_event ?h3 = tick_event h"
    "history ?h3 = history h" "final ?h3 = final h" "state ?h3 = state h1"
    "state_to_return_to ?h3 = state_to_return_to h1"
    "on_stack ?h3 sm p = on_stack h1 sm p" for sm p
    by (simp_all add: acted_def k on_stack_def)
  have sm3: "state_machine d ?h3 s = state_machine d h s" for s
    by (rule state_machine_cong) (simp_all add: h3)
  show ?thesis
  proof (cases "kind_of h new_state = FinalState")
    case True
    with rest have "h' = ?h3" by simp
    with r ex h3 True show ?thesis by simp
  next
    case False
    with rest have "(if super_state_is_concurrent h self
                     then activate_concurrent_state d new_state ?h3
                     else activate d new_state ?h3) = Inr h'" by simp
    from activated_on_stack [OF this] r ex h3 False sm3 show ?thesis
      by simp
  qed
qed


text \<open>
  C7 (as the code has it). Let \<open>p\<close> be a pseudo-state. Its \<^verbatim>\<open>exit\<close> does nothing: no
  hook runs and the stack is as it was. No transition, whatever its source and
  target, records entry, do or exit actions of \<open>p\<close>. When \<open>p\<close> is a final
  pseudo-state, no transition puts it on a stack. When \<open>p\<close> is an initial or a history
  pseudo-state and is the target of a transition, the transition activates it like
  any other state: afterwards \<open>p\<close> is on the stack of its machine.
\<close>

theorem pseudo_state_hooks_and_stack:
  assumes "is_pseudo (kind_of h p)"
  shows "exit (Suc d) p h = Inr h
    \<and> (\<forall>self new_state actions r h'.
          transition d self new_state actions h = Inr (r, h') \<longrightarrow>
            (\<exists>cs. calls h' = calls h @ cs \<and> EntryActions p \<notin> set cs
                 \<and> DoActions p \<notin> set cs \<and> ExitActions p \<notin> set cs)
          \<and> (kind_of h p = FinalState \<longrightarrow> (\<forall>sm. on_stack h' sm p \<longrightarrow> on_stack h sm p))
          \<and> (kind_of h p \<noteq> FinalState \<and> new_state = p \<longrightarrow>
                (\<exists>sm. state_machine d h p = Inr sm \<and> on_stack h' sm p)))"
proof (intro conjI allI impI)
  from assms show "exit (Suc d) p h = Inr h"
    by (auto simp: is_pseudo_def is_composite_def State_exit_def)
next
  fix self new_state actions r h'
  assume tr: "transition d self new_state actions h = Inr (r, h')"
  from transition_Inr [OF tr] obtain h1 where ex: "exit d self h = Inr h1"
    and c: "calls h' = calls h1 @ map TransitionAction actions
                 @ (if is_pseudo (kind_of h new_state) then [] else [EntryActions new_state])"
    and st: "if kind_of h new_state = FinalState
                then \<forall>sm p. on_stack h' sm p \<longleftrightarrow> on_stack h1 sm p
                else \<exists>sm. state_machine d h new_state = Inr sm
                       \<and> (\<forall>sm' p. on_stack h' sm' p
                              \<longleftrightarrow> on_stack h1 sm' p \<or> (sm' = sm \<and> p = new_state))"
    by blast
  from exit_exited [OF ex] obtain cs where cs: "calls h1 = calls h @ cs"
    "\<forall>c \<in> set cs. \<exists>q. c = ExitActions q \<and> \<not> is_pseudo (kind_of h q)"
    and shrink: "\<forall>sm p. on_stack h1 sm p \<longrightarrow> on_stack h sm p"
    unfolding exited_def by blast
  let ?cs = "cs @ map TransitionAction actions
                 @ (if is_pseudo (kind_of h new_state) then [] else [EntryActions new_state])"
  have "calls h' = calls h @ ?cs" by (simp add: c cs)
  moreover have "EntryActions p \<notin> set ?cs" "DoActions p \<notin> set ?cs" "ExitActions p \<notin> set ?cs"
    using cs(2) assms by auto
  ultimately show "\<exists>cs. calls h' = calls h @ cs \<and> EntryActions p \<notin> set cs
                 \<and> DoActions p \<notin> set cs \<and> ExitActions p \<notin> set cs"
    by blast
  {
    fix sm
    assume f: "kind_of h p = FinalState" and on: "on_stack h' sm p"
    have "on_stack h1 sm p"
    proof (cases "kind_of h new_state = FinalState")
      case True
      with st on show ?thesis by simp
    next
      case False
      with f have "p \<noteq> new_state" by auto
      with st False on show ?thesis by auto
    qed
    with shrink show "on_stack h sm p" by blast
  }
  {
    assume "kind_of h p \<noteq> FinalState \<and> new_state = p"
    with st show "\<exists>sm. state_machine d h p = Inr sm \<and> on_stack h' sm p" by auto
  }
qed


theorem pseudo_state_hooks_and_stack_witness:
  "is_pseudo (kind_of simple_machine 2) \<and> kind_of simple_machine 2 = FinalState
   \<and> exit (Suc 0) 2 simple_machine = Inr simple_machine
   \<and> \<not> isl (transition 3 3 2 [7] simple_machine)
   \<and> \<not> on_stack simple_machine 0 2
   \<and> \<not> on_stack (snd (projr (transition 3 3 2 [7] simple_machine))) 0 2
   \<and> is_pseudo (kind_of simple_machine 1) \<and> kind_of simple_machine 1 \<noteq> FinalState
   \<and> on_stack (snd (projr (transition 3 3 1 [] simple_machine))) 0 1"
proof -
  have p2: "is_pseudo (kind_of simple_machine 2)" and p1: "is_pseudo (kind_of simple_machine 1)"
    by (simp_all add: simple_machine_fields is_pseudo_def)
  have off: "\<not> on_stack simple_machine 0 2"
    by (simp add: on_stack_def simple_machine_fields)
  have sm: "state_machine 3 simple_machine 1 = Inr 0"
    by (simp add: simple_machine_fields)
  from pseudo_state_hooks_and_stack [OF p2, of 0]
  have a: "exit (Suc 0) 2 simple_machine = Inr simple_machine" by simp
  from pseudo_state_hooks_and_stack [OF p2, of 3] simple_machine_to_final off
  have b: "\<not> on_stack (snd (projr (transition 3 3 2 [7] simple_machine))) 0 2"
    by (auto simp: simple_machine_fields)
  from pseudo_state_hooks_and_stack [OF p1, of 3] simple_machine_to_initial sm
  have c: "on_stack (snd (projr (transition 3 3 1 [] simple_machine))) 0 1"
    by (auto simp: simple_machine_fields)
  from p1 p2 off a b c show ?thesis
    by (simp add: simple_machine_fields simple_machine_to_final)
qed


text \<open>
  The claim C7 as the specification words it fails: the transition from state 3 of the
  example machine to the machine's initial pseudo-state (object 1) leaves the
  pseudo-state on the stack.
\<close>

theorem pseudo_state_pushed_counterexample:
  "kind_of simple_machine 1 = InitialState
   \<and> active_states simple_machine 0 = [Single 0, Single 3]
   \<and> \<not> isl (transition 3 3 1 [] simple_machine)
   \<and> active_states (snd (projr (transition 3 3 1 [] simple_machine))) 0
       = [Single 0, Single 1]"
  unfolding simple_machine_to_initial by (simp add: simple_machine_fields)


section \<open>Properties of \<^verbatim>\<open>CompositeState._transition_to\<close>\<close>

text \<open>
  C2 (as the code has it). When \<^verbatim>\<open>_transition_to\<close> of a plain composite completes,
  the current child of the composite is the target. The source then tests the class
  of the target (\<^verbatim>\<open>isinstance(self._state, _FinalState)\<close>), not whether it is the
  composite's own final pseudo-state: the tick event of the machine has been set if
  the target is a final pseudo-state, of this composite or of any other, and no tick
  event has changed if it is not.
\<close>

theorem CompositeState_transition_to_state_and_tick:
  assumes "CompositeState_transition_to d c new_state actions h = Inr h'"
  shows "state h' c = new_state
    \<and> (if kind_of h new_state = FinalState
        then \<exists>sm. state_machine d h c = Inr sm \<and> tick_event h' = (tick_event h)(sm := True)
        else tick_event h' = tick_event h)"
proof -
  from assms obtain r h1 where tr: "transition d (state h c) new_state actions h = Inr (r, h1)"
    by (auto simp: CompositeState_transition_to_def split: sum.splits)
  from transition_Inr [OF tr] have r: "r = new_state" and k: "kind_of h1 = kind_of h"
    "super_state h1 = super_state h" "tick_event h1 = tick_event h"
    by simp_all
  let ?h2 = "h1\<lparr>state := (state h1)(c := new_state)\<rparr>"
  have sm: "state_machine d ?h2 c = state_machine d h c"
    by (rule state_machine_cong) (simp_all add: k)
  show ?thesis
  proof (cases "kind_of h new_state = FinalState")
    case True
    with assms tr r k sm obtain sm where "state_machine d h c = Inr sm"
      and "h' = trigger_tick sm ?h2"
      by (auto simp: CompositeState_transition_to_def Let_def split: sum.splits)
    with True k show ?thesis by (auto simp: trigger_tick_def)
  next
    case False
    with assms tr r k have "h' = ?h2"
      by (auto simp: CompositeState_transition_to_def Let_def split: sum.splits)
    with False k show ?thesis by simp
  qed
qed

lemma simple_machine_to_four_ok:
  "\<not> isl (CompositeState_transition_to 3 0 4 [7] simple_machine)"
  by (simp add: CompositeState_transition_to_def simple_machine_fields State_exit_def
      is_composite_def is_pseudo_def deactivate_def activate_def run_actions_def Let_def
      super_state_is_concurrent_def transition_def entry_def)


theorem CompositeState_transition_to_state_and_tick_witness:
  "kind_of simple_machine 2 = FinalState \<and> final simple_machine 0 = 2
   \<and> \<not> isl (CompositeState_transition_to 3 0 2 [7] simple_machine)
   \<and> state (projr (CompositeState_transition_to 3 0 2 [7] simple_machine)) 0 = 2
   \<and> \<not> tick_event simple_machine 0
   \<and> tick_event (projr (CompositeState_transition_to 3 0 2 [7] simple_machine)) 0
   \<and> kind_of simple_machine 4 \<noteq> FinalState
   \<and> \<not> isl (CompositeState_transition_to 3 0 4 [7] simple_machine)
   \<and> state (projr (CompositeState_transition_to 3 0 4 [7] simple_machine)) 0 = 4
   \<and> \<not> tick_event (projr (CompositeState_transition_to 3 0 4 [7] simple_machine)) 0"
proof -
  have ok: "\<not> isl (CompositeState_transition_to 3 0 2 [7] simple_machine)"
    by (simp add: CompositeState_transition_to_def simple_machine_fields
        simple_machine_to_final Let_def)
  then have eq: "CompositeState_transition_to 3 0 2 [7] simple_machine
      = Inr (projr (CompositeState_transition_to 3 0 2 [7] simple_machine))"
    by (cases "CompositeState_transition_to 3 0 2 [7] simple_machine") simp_all
  have ok4: "\<not> isl (CompositeState_transition_to 3 0 4 [7] simple_machine)"
    by (rule simple_machine_to_four_ok)
  then have eq4: "CompositeState_transition_to 3 0 4 [7] simple_machine
      = Inr (projr (CompositeState_transition_to 3 0 4 [7] simple_machine))"
    by (cases "CompositeState_transition_to 3 0 4 [7] simple_machine") simp_all
  have sm: "state_machine 3 simple_machine 0 = Inr 0"
    by (simp add: simple_machine_fields)
  from CompositeState_transition_to_state_and_tick [OF eq] sm
  have a: "state (projr (CompositeState_transition_to 3 0 2 [7] simple_machine)) 0 = 2
     \<and> tick_event (projr (CompositeState_transition_to 3 0 2 [7] simple_machine)) 0"
    by (auto simp: simple_machine_fields)
  from CompositeState_transition_to_state_and_tick [OF eq4]
  have b: "state (projr (CompositeState_transition_to 3 0 4 [7] simple_machine)) 0 = 4
     \<and> \<not> tick_event (projr (CompositeState_transition_to 3 0 4 [7] simple_machine)) 0"
    by (auto simp: simple_machine_fields)
  from a b ok ok4 show ?thesis by (simp add: simple_machine_fields)
qed

lemma history_machine_more:
  "kind_of history_machine 2 = FinalState" "super_state history_machine 2 = Some 0"
  "tick_event history_machine 0 = False" "final history_machine 0 = 2"
  by (simp_all add: history_machine_def construction_defs eval_nat_numeral)

lemma history_machine_to_foreign_final:
  "CompositeState_transition_to 4 3 2 [] history_machine =
     Inr (history_machine
            \<lparr>state := (state history_machine)(3 := 2),
             tick_event := (tick_event history_machine)(0 := True),
             active_states := (active_states history_machine)(0 := [Single 0, Single 3]),
             calls := [EntryActions 3, EntryActions 7, ExitActions 7, EntryActions 8,
                       ExitActions 8]\<rparr>)"
  by (simp add: CompositeState_transition_to_def transition_def history_machine_fields
      history_machine_more State_exit_def is_composite_def is_pseudo_def deactivate_def
      run_actions_def Let_def set_active_states_def record_call_def trigger_tick_def)


text \<open>
  The claim C2 as the specification words it fails in the direction "only if": in the example
  machine the composite (object 3) has the final pseudo-state 5; its transition to the
  final pseudo-state of the machine (object 2), which is not its own, completes and
  sets the tick event of the machine.
\<close>

theorem CompositeState_transition_to_foreign_final_counterexample:
  "kind_of history_machine 3 = CompositeState
   \<and> final history_machine 3 = 5 \<and> (2 :: nat) \<noteq> 5
   \<and> tick_event history_machine 0 = False
   \<and> \<not> isl (CompositeState_transition_to 4 3 2 [] history_machine)
   \<and> state (projr (CompositeState_transition_to 4 3 2 [] history_machine)) 3 = 2
   \<and> tick_event (projr (CompositeState_transition_to 4 3 2 [] history_machine)) 0 = True"
  unfolding history_machine_to_foreign_final
  by (simp add: history_machine_fields history_machine_more)


section \<open>History\<close>

text \<open>
  A successful \<^verbatim>\<open>exit\<close> of a state never reaches a composite whose own \<^verbatim>\<open>exit\<close> is
  under way: it would come back to the same state with less depth left, and run out
  of depth. So the current children of those composites are what they were.
\<close>

lemma kept_refl: "kept Q h h"
  by (simp add: kept_def)

lemma kept_trans: "kept Q a b \<Longrightarrow> kept Q b c \<Longrightarrow> kept Q a c"
  by (simp add: kept_def)

lemma kept_subset: "kept Q a b \<Longrightarrow> Q' \<subseteq> Q \<Longrightarrow> kept Q' a b"
  by (auto simp: kept_def)

lemma State_exit_pointers:
  assumes "State_exit d s h = Inr h'"
  shows "state h' = state h" "states h' = states h"
    "state_to_return_to h' = state_to_return_to h"
    "states_to_return_to h' = states_to_return_to h"
proof -
  have "state h' = state h \<and> states h' = states h
      \<and> state_to_return_to h' = state_to_return_to h
      \<and> states_to_return_to h' = states_to_return_to h"
  proof (cases "is_pseudo (kind_of h s)")
    case True
    with assms show ?thesis by (simp add: State_exit_pseudo)
  next
    case False
    from State_exit_shape [OF assms False] show ?thesis
      by (auto simp: set_active_states_def record_call_def)
  qed
  then show "state h' = state h" "states h' = states h"
    "state_to_return_to h' = state_to_return_to h"
    "states_to_return_to h' = states_to_return_to h"
    by simp_all
qed

lemma kept_State_exit: "State_exit d s h = Inr h' \<Longrightarrow> kept Q h h'"
  by (simp add: kept_def State_exit_pointers)

lemma kept_remember_state: "c \<notin> Q \<Longrightarrow> kept Q h (remember_state c h)"
  by (auto simp: kept_def remember_state_def split: option.splits)

lemma kept_remember_states: "c \<notin> Q \<Longrightarrow> remember_states c h = Inr h' \<Longrightarrow> kept Q h h'"
  by (auto simp: kept_def remember_states_def split: option.splits if_splits)

lemma in_progress_cong:
  "kind_of h' = kind_of h \<Longrightarrow> kept Q h h' \<Longrightarrow> in_progress h Q s \<Longrightarrow> in_progress h' Q s"
  by (simp add: in_progress_def kept_def current_child_def)

lemma in_progress_insert_composite:
  "in_progress h Q c \<Longrightarrow> is_composite (kind_of h c) \<Longrightarrow>
   in_progress h (insert c Q) (state h c)"
  by (auto simp: in_progress_def current_child_def)

lemma in_progress_insert_concurrent:
  "in_progress h Q c \<Longrightarrow> kind_of h c = ConcurrentCompositeState \<Longrightarrow> i < length (states h c)
   \<Longrightarrow> in_progress h (insert c Q) (states h c ! i)"
  by (auto simp: in_progress_def current_child_def)

lemma exit_in_progress:
  shows "\<forall>Q h'. exit d s h = Inr h' \<longrightarrow> in_progress h Q s \<longrightarrow> s \<notin> Q \<and> kept Q h h'"
    and "\<forall>Q h'. CompositeState_exit d c h = Inr h' \<longrightarrow> is_composite (kind_of h c) \<longrightarrow>
           in_progress h Q c \<longrightarrow> c \<notin> Q \<and> kept Q h h'"
    and "\<forall>Q h'. ConcurrentCompositeState_exit d c h = Inr h' \<longrightarrow>
           kind_of h c = ConcurrentCompositeState \<longrightarrow>
           in_progress h Q c \<longrightarrow> c \<notin> Q \<and> kept Q h h'"
    and "\<forall>Q h'. exit_each d c js h = Inr h' \<longrightarrow>
           kind_of h c = ConcurrentCompositeState \<longrightarrow>
           (\<forall>j \<in> set js. j < length (states h c)) \<longrightarrow>
           in_progress h Q c \<longrightarrow>
           (\<forall>j \<in> set js. states h c ! j \<notin> insert c Q) \<and> kept (insert c Q) h h'"
proof (induction d s h and d c h and d c h and d c js h
    rule: exit_CompositeState_exit_ConcurrentCompositeState_exit_exit_each.induct)
  case (1 s h)
  then show ?case by simp
next
  case (2 d s h)
  show ?case
  proof (intro allI impI)
    fix Q h'
    assume ex: "exit (Suc d) s h = Inr h'" and ip: "in_progress h Q s"
    show "s \<notin> Q \<and> kept Q h h'"
    proof (cases "is_composite (kind_of h s)")
      case True
      with ex ip "2.IH"(1) show ?thesis by simp
    next
      case nc: False
      show ?thesis
      proof (cases "kind_of h s = ConcurrentCompositeState")
        case True
        with nc ex ip "2.IH"(2) show ?thesis by simp
      next
        case False
        with nc ex have se: "State_exit d s h = Inr h'" by simp
        have "s \<notin> Q"
        proof
          assume "s \<in> Q"
          with ip obtain b where "current_child h s b" by (auto simp: in_progress_def)
          with nc False show False by (simp add: current_child_def)
        qed
        with kept_State_exit [OF se] show ?thesis by simp
      qed
    qed
  qed
next
  case (3 d c h)
  show ?case
  proof (intro allI impI)
    fix Q h'
    assume ex: "CompositeState_exit d c h = Inr h'" and comp: "is_composite (kind_of h c)"
      and ip: "in_progress h Q c"
    from ex obtain h1 where h1: "exit d (state h c) h = Inr h1"
      and h': "State_exit d c (remember_state c h1) = Inr h'"
      by (auto split: sum.splits)
    from "3.IH" h1 in_progress_insert_composite [OF ip comp]
    have notin: "state h c \<notin> insert c Q" and k1: "kept (insert c Q) h h1"
      by blast+
    have "c \<notin> Q"
    proof
      assume "c \<in> Q"
      with ip obtain b where b: "b \<in> insert c Q" "current_child h c b"
        by (auto simp: in_progress_def)
      with comp have "b = state h c" by (auto simp: current_child_def is_composite_def)
      with b notin show False by simp
    qed
    moreover have "kept Q h h'"
      using kept_subset [OF k1, of Q] kept_remember_state [OF \<open>c \<notin> Q\<close>, of h1]
        kept_State_exit [OF h', of Q]
      by (meson kept_trans subset_insertI)
    ultimately show "c \<notin> Q \<and> kept Q h h'" by simp
  qed
next
  case (4 d c h)
  show ?case
  proof (intro allI impI)
    fix Q h'
    assume ex: "ConcurrentCompositeState_exit d c h = Inr h'"
      and conc: "kind_of h c = ConcurrentCompositeState"
      and ip: "in_progress h Q c"
    from ex obtain h1 h2 where h1: "exit_each d c [0..<length (states h c)] h = Inr h1"
      and h2: "remember_states c h1 = Inr h2"
      and h': "State_exit d c h2 = Inr h'"
      by (auto split: sum.splits)
    from "4.IH" h1 conc ip
    have notin: "\<forall>j \<in> set [0..<length (states h c)]. states h c ! j \<notin> insert c Q"
      and k1: "kept (insert c Q) h h1"
      by auto
    have "c \<notin> Q"
    proof
      assume "c \<in> Q"
      with ip obtain b where b: "b \<in> insert c Q" "current_child h c b"
        by (auto simp: in_progress_def)
      with conc have "b \<in> set (states h c)" by (auto simp: current_child_def is_composite_def)
      then obtain j where "j < length (states h c)" "b = states h c ! j"
        by (auto simp: in_set_conv_nth)
      with b notin show False by auto
    qed
    moreover have "kept Q h h'"
      using kept_subset [OF k1, of Q] kept_remember_states [OF \<open>c \<notin> Q\<close> h2]
        kept_State_exit [OF h', of Q]
      by (meson kept_trans subset_insertI)
    ultimately show "c \<notin> Q \<and> kept Q h h'" by simp
  qed
next
  case (5 d c h)
  then show ?case by (simp add: kept_refl)
next
  case (6 d c i "is" h)
  show ?case
  proof (intro allI impI)
    fix Q h'
    assume ex: "exit_each d c (i # is) h = Inr h'"
      and conc: "kind_of h c = ConcurrentCompositeState"
      and len: "\<forall>j \<in> set (i # is). j < length (states h c)"
      and ip: "in_progress h Q c"
    from ex obtain h1 where h1: "exit d (states h c ! i) h = Inr h1"
      and rest: "exit_each d c is h1 = Inr h'"
      by (auto split: sum.splits)
    from len have i: "i < length (states h c)" by simp
    from "6.IH"(1) h1 in_progress_insert_concurrent [OF ip conc i]
    have notin: "states h c ! i \<notin> insert c Q" and k1: "kept (insert c Q) h h1"
      by blast+
    from exit_exited [OF h1] have kind: "kind_of h1 = kind_of h" by (simp add: exited_def)
    from k1 have c1: "states h1 c = states h c" by (simp add: kept_def)
    have ip1: "in_progress h1 Q c"
      using in_progress_cong [OF kind kept_subset [OF k1] ip] by blast
    from "6.IH"(2) [OF h1] rest conc len ip1 kind c1
    have notin2: "\<forall>j \<in> set is. states h c ! j \<notin> insert c Q"
      and k2: "kept (insert c Q) h1 h'"
      by auto
    from notin notin2 kept_trans [OF k1 k2]
    show "(\<forall>j \<in> set (i # is). states h c ! j \<notin> insert c Q) \<and> kept (insert c Q) h h'"
      by simp
  qed
qed

lemma child_exit_keeps_state:
  assumes "is_composite (kind_of h c)" and "exit d (state h c) h = Inr h1"
  shows "state h1 c = state h c"
proof -
  have "in_progress h {c} (state h c)"
    using assms(1) by (simp add: in_progress_def current_child_def)
  with exit_in_progress(1) assms(2) have "kept {c} h h1" by blast
  then show ?thesis by (simp add: kept_def)
qed


text \<open>
  C3. For a plain composite \<open>c\<close> with the history node \<open>hs\<close>. When the \<^verbatim>\<open>exit\<close> of \<open>c\<close>
  succeeds and the current child was not the composite's final pseudo-state, the
  history node remembers that child and is the new current child; when the current
  child was the final pseudo-state, the new current child is the initial pseudo-state.
  \<^verbatim>\<open>_handle_history\<close> fails its assertion when nothing is remembered. When it
  succeeds with the history node as the current child, a state \<open>t\<close> was remembered,
  \<open>t\<close> is the current child now, nothing is remembered any more, the only hook
  that has run is the entry of \<open>t\<close> (none if \<open>t\<close> is a pseudo-state, and none of the
  history node), and \<open>t\<close> is on the stack unless it is a final pseudo-state.
\<close>

theorem history_remember_and_restore:
  "(is_composite (kind_of h c) \<and> history h c = Some hs \<and> CompositeState_exit d c h = Inr h' \<longrightarrow>
      (if state h c \<noteq> final h c
       then state_to_return_to h' hs = Some (state h c) \<and> state h' c = hs
       else state h' c = initial h c))
   \<and> (history g c = Some hs \<and> state_to_return_to g hs = None \<longrightarrow>
        CompositeState_handle_history d c g = Inl (AssertionError StateToReturnToIsNone))
   \<and> (history g c = Some hs \<and> state g c = hs \<and> kind_of g hs = HistoryState
        \<and> CompositeState_handle_history d c g = Inr g' \<longrightarrow>
        (\<exists>t. state_to_return_to g hs = Some t \<and> state g' c = t
            \<and> state_to_return_to g' hs = None
            \<and> calls g' = calls g @ (if is_pseudo (kind_of g t) then [] else [EntryActions t])
            \<and> (kind_of g t \<noteq> FinalState \<longrightarrow>
                  (\<exists>sm. state_machine d g t = Inr sm \<and> on_stack g' sm t))))"
proof (intro conjI impI)
  assume a: "is_composite (kind_of h c) \<and> history h c = Some hs
      \<and> CompositeState_exit d c h = Inr h'"
  then obtain h1 where h1: "exit d (state h c) h = Inr h1"
    and h': "State_exit d c (remember_state c h1) = Inr h'"
    by (auto split: sum.splits)
  from a h1 have s1: "state h1 c = state h c" by (simp add: child_exit_keeps_state)
  from exit_exited [OF h1] a have f1: "final h1 = final h" "history h1 c = Some hs"
    "initial h1 = initial h"
    by (simp_all add: exited_def)
  from State_exit_pointers [OF h']
  have "state h' = state (remember_state c h1)"
    "state_to_return_to h' = state_to_return_to (remember_state c h1)"
    by simp_all
  then show "if state h c \<noteq> final h c
       then state_to_return_to h' hs = Some (state h c) \<and> state h' c = hs
       else state h' c = initial h c"
    by (simp add: remember_state_def s1 f1)
next
  assume "history g c = Some hs \<and> state_to_return_to g hs = None"
  then show "CompositeState_handle_history d c g = Inl (AssertionError StateToReturnToIsNone)"
    by (simp add: CompositeState_handle_history_def)
next
  assume a: "history g c = Some hs \<and> state g c = hs \<and> kind_of g hs = HistoryState
        \<and> CompositeState_handle_history d c g = Inr g'"
  then obtain t g1 where t: "state_to_return_to g hs = Some t"
    and g1: "CompositeState_transition_to d c t [] g = Inr g1"
    and g': "g' = g1\<lparr>state_to_return_to := (state_to_return_to g1)(hs := None)\<rparr>"
    by (auto simp: CompositeState_handle_history_def split: option.splits sum.splits)
  from g1 obtain r g2 where tr: "transition d (state g c) t [] g = Inr (r, g2)"
    and g1': "g1 = (let h2 = g2\<lparr>state := (state g2)(c := r)\<rparr>
                    in if kind_of h2 (state h2 c) = FinalState
                       then (case state_machine d h2 c of Inl e \<Rightarrow> h2
                             | Inr sm \<Rightarrow> trigger_tick sm h2)
                       else h2)"
    by (auto simp: CompositeState_transition_to_def Let_def split: sum.splits if_splits)
  from a have ps: "is_pseudo (kind_of g (state g c))" by (simp add: is_pseudo_def)
  from transition_Inr [OF tr] obtain h1 where r: "r = t" and ex: "exit d (state g c) g = Inr h1"
    and c: "calls g2 = calls h1 @ (if is_pseudo (kind_of g t) then [] else [EntryActions t])"
    and st: "if kind_of g t = FinalState
                then \<forall>sm p. on_stack g2 sm p \<longleftrightarrow> on_stack h1 sm p
                else \<exists>sm. state_machine d g t = Inr sm
                       \<and> (\<forall>sm' p. on_stack g2 sm' p
                              \<longleftrightarrow> on_stack h1 sm' p \<or> (sm' = sm \<and> p = t))"
    by auto
  from exit_pseudo [OF ex ps] have "h1 = g" .
  with c have c2: "calls g2 = calls g @ (if is_pseudo (kind_of g t) then [] else [EntryActions t])"
    by simp
  have fields: "state g1 c = t" "calls g1 = calls g2" "active_states g1 = active_states g2"
    by (auto simp: g1' r Let_def trigger_tick_def split: sum.splits)
  have on: "on_stack g' sm p = on_stack g2 sm p" for sm p
    by (simp add: on_stack_def g' fields)
  show "\<exists>t. state_to_return_to g hs = Some t \<and> state g' c = t
            \<and> state_to_return_to g' hs = None
            \<and> calls g' = calls g @ (if is_pseudo (kind_of g t) then [] else [EntryActions t])
            \<and> (kind_of g t \<noteq> FinalState \<longrightarrow>
                  (\<exists>sm. state_machine d g t = Inr sm \<and> on_stack g' sm t))"
  proof (rule exI [of _ t], intro conjI impI)
    show "state_to_return_to g hs = Some t" by (rule t)
    show "state g' c = t" by (simp add: g' fields)
    show "state_to_return_to g' hs = None" by (simp add: g')
    show "calls g' = calls g @ (if is_pseudo (kind_of g t) then [] else [EntryActions t])"
      by (simp add: g' fields c2)
    assume "kind_of g t \<noteq> FinalState"
    with st on show "\<exists>sm. state_machine d g t = Inr sm \<and> on_stack g' sm t" by auto
  qed
qed


lemma history_machine_exit_ok: "\<not> isl (CompositeState_exit 4 3 history_machine)"
  by (simp add: history_machine_fields State_exit_def is_composite_def is_pseudo_def
      deactivate_def remember_state_def set_active_states_def record_call_def Let_def)

lemma history_machine_restore_ok:
  "\<not> isl (CompositeState_handle_history 4 3 history_machine_reentered)"
  by (simp add: CompositeState_handle_history_def CompositeState_transition_to_def
      transition_def history_machine_reentered_fields history_machine_fields State_exit_def
      is_composite_def is_pseudo_def activate_def run_actions_def entry_def Let_def
      super_state_is_concurrent_def set_active_states_def record_call_def)


theorem history_remember_and_restore_witness:
  "is_composite (kind_of history_machine 3) \<and> history history_machine 3 = Some 6
   \<and> \<not> isl (CompositeState_exit 4 3 history_machine)
   \<and> state history_machine 3 = 8 \<and> 8 \<noteq> final history_machine 3
   \<and> state_to_return_to (projr (CompositeState_exit 4 3 history_machine)) 6 = Some 8
   \<and> state (projr (CompositeState_exit 4 3 history_machine)) 3 = 6
   \<and> state history_machine_reentered 3 = 6
   \<and> kind_of history_machine_reentered 6 = HistoryState
   \<and> state_to_return_to history_machine_reentered 6 = Some 8
   \<and> \<not> isl (CompositeState_handle_history 4 3 history_machine_reentered)
   \<and> state (projr (CompositeState_handle_history 4 3 history_machine_reentered)) 3 = 8
   \<and> state_to_return_to (projr (CompositeState_handle_history 4 3 history_machine_reentered)) 6
       = None
   \<and> calls (projr (CompositeState_handle_history 4 3 history_machine_reentered))
       = [EntryActions 8]"
proof -
  let ?e = "CompositeState_exit 4 3 history_machine"
  let ?r = "CompositeState_handle_history 4 3 history_machine_reentered"
  have e: "?e = Inr (projr ?e)"
    using history_machine_exit_ok by (cases ?e) simp_all
  have r: "?r = Inr (projr ?r)"
    using history_machine_restore_ok by (cases ?r) simp_all
  have pre: "is_composite (kind_of history_machine 3) \<and> history history_machine 3 = Some 6
      \<and> ?e = Inr (projr ?e)"
    using e by (simp add: history_machine_fields is_composite_def)
  have pre2: "history history_machine_reentered 3 = Some 6
      \<and> state history_machine_reentered 3 = 6
      \<and> kind_of history_machine_reentered 6 = HistoryState \<and> ?r = Inr (projr ?r)"
    using r by (simp add: history_machine_reentered_fields history_machine_fields)
  from history_remember_and_restore
    [of history_machine 3 6 4 "projr ?e" history_machine_reentered "projr ?r"]
    pre pre2 history_machine_exit_ok history_machine_restore_ok
  show ?thesis
    by (simp add: history_machine_fields history_machine_reentered_fields is_pseudo_def)
qed


end
